theory Spec2Isabelle
  imports
    Complex_Main
    "HOL-Library.Char_ord"
    "HOL-Library.List_Lexorder"
    "HOL-Library.Product_Lexorder"
begin

section \<open>The crime dashboard pipeline of \<^verbatim>\<open>app.py\<close>\<close>

text \<open>
  \<^verbatim>\<open>app.py\<close> is a Streamlit script over one pandas DataFrame. The DataFrame is modelled
  as the list of its rows; a cell that pandas holds as NaN or NaT is \<open>None\<close>. A
  \<^verbatim>\<open>datetime64[ns]\<close> cell is the integer number of nanoseconds since 1970-01-01 00:00.
  Text is ASCII text; \<^verbatim>\<open>str.lower\<close> and the case-insensitive matching are modelled on
  the ASCII letters. The pandas behaviour modelled is that of pandas 1.x and 2.x, the
  versions the script's Streamlit calls (\<^verbatim>\<open>st.experimental_rerun\<close>) belong to.
\<close>

subsection \<open>Rows\<close>

record crime_record =
  case_id :: "string option"
  fir_number :: "string option"
  police_station :: "string option"
  crime_type :: "string option"
  date_reported :: "int option"
  arrest_date :: "int option"
  chargesheet_date :: "int option"
  accused_arrested :: "string option"
  chargesheet_filed :: "string option"
  status :: "string option"
  location :: "string option"

subsection \<open>Strings\<close>

definition ascii_upper :: string where
  "ascii_upper = ''ABCDEFGHIJKLMNOPQRSTUVWXYZ''"

definition ascii_lower :: string where
  "ascii_lower = ''abcdefghijklmnopqrstuvwxyz''"

definition lower_char :: "char \<Rightarrow> char" where
  "lower_char c = (case map_of (zip ascii_upper ascii_lower) c of Some l \<Rightarrow> l | None \<Rightarrow> c)"

definition str_lower :: "string \<Rightarrow> string" where
  "str_lower s = map lower_char s"

text \<open>\<^verbatim>\<open>Series.astype(str)\<close>: a missing cell becomes the three-letter text \<^verbatim>\<open>nan\<close>.\<close>

definition astype_str :: "string option \<Rightarrow> string" where
  "astype_str v = (case v of None \<Rightarrow> ''nan'' | Some s \<Rightarrow> s)"

text \<open>\<^verbatim>\<open>p in s\<close>: \<open>p\<close> occurs in \<open>s\<close> as a run of consecutive characters.\<close>

fun starts_with :: "string \<Rightarrow> string \<Rightarrow> bool" where
  "starts_with [] s = True"
| "starts_with (p # ps) [] = False"
| "starts_with (p # ps) (c # cs) = (p = c \<and> starts_with ps cs)"

fun is_substring :: "string \<Rightarrow> string \<Rightarrow> bool" where
  "is_substring p [] = (p = [])"
| "is_substring p (c # cs) = (starts_with p (c # cs) \<or> is_substring p cs)"

text \<open>
  \<^verbatim>\<open>Series.str.contains(pat, case=False, na=False)\<close> keeps the default \<^verbatim>\<open>regex=True\<close>:
  pandas compiles \<open>pat\<close> with \<^verbatim>\<open>re.compile(pat, re.IGNORECASE)\<close> and tests
  \<^verbatim>\<open>regex.search(x) is not None\<close> on every cell. A pattern without any character that
  is special to \<^verbatim>\<open>re\<close> matches itself, so the search is the case-insensitive substring
  test. A pattern whose only special character is the dot is modelled too: the dot
  matches any one character but a newline. For any other pattern the result is that
  of Python's regular-expression engine, which is a parameter here: \<open>engine pat\<close> is
  \<open>None\<close> when \<^verbatim>\<open>re.compile\<close> raises and the compiled pattern's search otherwise.
\<close>

datatype py_error = ReError | OverflowError

type_synonym regex_engine = "string \<Rightarrow> (string \<Rightarrow> bool) option"

definition regex_special :: "char list" where
  "regex_special = ''.^$*+?{}[]|()'' @ [CHR 0x5C]"

definition literal_pattern :: "string \<Rightarrow> bool" where
  "literal_pattern pat = list_all (\<lambda>c. c \<notin> set regex_special) pat"

definition dot_pattern :: "string \<Rightarrow> bool" where
  "dot_pattern pat = list_all (\<lambda>c. c = CHR ''.'' \<or> c \<notin> set regex_special) pat"

fun dot_starts_with :: "string \<Rightarrow> string \<Rightarrow> bool" where
  "dot_starts_with [] s = True"
| "dot_starts_with (p # ps) [] = False"
| "dot_starts_with (p # ps) (c # cs) =
     ((if p = CHR ''.'' then c \<noteq> CHR 0x0A else p = c) \<and> dot_starts_with ps cs)"

fun dot_search :: "string \<Rightarrow> string \<Rightarrow> bool" where
  "dot_search p [] = (p = [])"
| "dot_search p (c # cs) = (dot_starts_with p (c # cs) \<or> dot_search p cs)"

definition str_contains :: "regex_engine \<Rightarrow> string \<Rightarrow> string list \<Rightarrow> py_error + bool list" where
  "str_contains engine pat col =
     (if literal_pattern pat
      then Inr (map (\<lambda>x. is_substring (str_lower pat) (str_lower x)) col)
      else if dot_pattern pat
      then Inr (map (\<lambda>x. dot_search (str_lower pat) (str_lower x)) col)
      else (case engine pat of
              None \<Rightarrow> Inl ReError
            | Some search \<Rightarrow> Inr (map search col)))"

text \<open>\<^verbatim>\<open>df[mask]\<close>: the rows whose entry in the boolean Series is \<open>True\<close>.\<close>

definition select_rows :: "'a list \<Rightarrow> bool list \<Rightarrow> 'a list" where
  "select_rows df keep = map fst (filter snd (zip df keep))"

text \<open>
  An operation on a whole column that may raise: the new column, or the error of the
  first cell on which the operation raises.
\<close>

fun column :: "('a \<Rightarrow> py_error + 'b) \<Rightarrow> 'a list \<Rightarrow> py_error + 'b list" where
  "column f [] = Inr []"
| "column f (x # xs) =
     (case f x of
        Inl e \<Rightarrow> Inl e
      | Inr y \<Rightarrow> (case column f xs of Inl e \<Rightarrow> Inl e | Inr ys \<Rightarrow> Inr (y # ys)))"

subsection \<open>Timestamps and the calendar\<close>

definition ns_per_day :: int where
  "ns_per_day = 86400000000000"

text \<open>
  A \<^verbatim>\<open>datetime64[ns]\<close> or \<^verbatim>\<open>timedelta64[ns]\<close> value is a signed 64-bit count of
  nanoseconds; the least 64-bit value is not a count, it stands for NaT.
\<close>

definition valid_ts :: "int \<Rightarrow> bool" where
  "valid_ts t = (- (2 ^ 63) < t \<and> t < 2 ^ 63)"

text \<open>
  The proleptic Gregorian calendar of \<^verbatim>\<open>Timestamp.year\<close>, \<^verbatim>\<open>.month\<close> and \<^verbatim>\<open>.day\<close>, on day
  numbers counted from 1970-01-01. Internally the year starts on 1 March, so that the
  leap day is the last day of a year, of a four-year cycle and of a 400-year era.
\<close>

definition days_from_civil :: "int \<Rightarrow> int \<Rightarrow> int \<Rightarrow> int" where
  "days_from_civil y m d =
     (let y' = (if m \<le> 2 then y - 1 else y);
          era = y' div 400;
          yoe = y' - era * 400;
          doy = (153 * (if m > 2 then m - 3 else m + 9) + 2) div 5 + d - 1;
          doe = yoe * 365 + yoe div 4 - yoe div 100 + doy
      in era * 146097 + doe - 719468)"

definition civil_from_days :: "int \<Rightarrow> int \<times> int \<times> int" where
  "civil_from_days z =
     (let z' = z + 719468;
          era = z' div 146097;
          doe = z' mod 146097;
          cent = min 3 (doe div 36524);
          doc = doe - cent * 36524;
          quad = doc div 1461;
          doq = doc - quad * 1461;
          yoq = min 3 (doq div 365);
          doy = doq - yoq * 365;
          y = era * 400 + cent * 100 + quad * 4 + yoq;
          mp = (5 * doy + 2) div 153;
          d = doy - (153 * mp + 2) div 5 + 1;
          m = (if mp < 10 then mp + 3 else mp - 9)
      in (if m \<le> 2 then y + 1 else y, m, d))"

definition year_of :: "int \<Rightarrow> int" where
  "year_of t = fst (civil_from_days (t div ns_per_day))"

definition month_of :: "int \<Rightarrow> int" where
  "month_of t = fst (snd (civil_from_days (t div ns_per_day)))"

text \<open>\<^verbatim>\<open>pd.to_datetime(d)\<close> of a \<^verbatim>\<open>datetime.date\<close>: midnight of that day.\<close>

definition to_datetime :: "int \<Rightarrow> int" where
  "to_datetime day = day * ns_per_day"

definition timestamp :: "int \<Rightarrow> int \<Rightarrow> int \<Rightarrow> int" where
  "timestamp y m d = to_datetime (days_from_civil y m d)"

text \<open>
  Arithmetic on \<^verbatim>\<open>datetime64[ns]\<close> and \<^verbatim>\<open>timedelta64[ns]\<close> cells: NaT propagates, and a
  result that does not fit the signed 64-bit count of nanoseconds raises
  \<^verbatim>\<open>OverflowError\<close>. The reference time \<^verbatim>\<open>datetime.now()\<close> is itself such a timestamp.
\<close>

definition ts_sub :: "int option \<Rightarrow> int option \<Rightarrow> py_error + int option" where
  "ts_sub a b =
     (case (a, b) of
        (Some x, Some y) \<Rightarrow> if valid_ts (x - y) then Inr (Some (x - y)) else Inl OverflowError
      | _ \<Rightarrow> Inr None)"

definition ts_add :: "int option \<Rightarrow> int \<Rightarrow> py_error + int option" where
  "ts_add a delta =
     (case a of
        Some x \<Rightarrow> if valid_ts (x + delta) then Inr (Some (x + delta)) else Inl OverflowError
      | None \<Rightarrow> Inr None)"

text \<open>\<^verbatim>\<open>.dt.days\<close>: the whole days of a Timedelta, rounded down.\<close>

definition dt_days :: "int option \<Rightarrow> int option" where
  "dt_days td = map_option (\<lambda>x. x div ns_per_day) td"

text \<open>Comparisons on columns: a missing cell compares as \<open>False\<close>.\<close>

definition na_le :: "int option \<Rightarrow> int \<Rightarrow> bool" where
  "na_le a b = (case a of None \<Rightarrow> False | Some x \<Rightarrow> x \<le> b)"

definition na_ge :: "int option \<Rightarrow> int \<Rightarrow> bool" where
  "na_ge a b = (case a of None \<Rightarrow> False | Some x \<Rightarrow> x \<ge> b)"

definition na_gt :: "int option \<Rightarrow> int \<Rightarrow> bool" where
  "na_gt a b = (case a of None \<Rightarrow> False | Some x \<Rightarrow> x > b)"

subsection \<open>Sidebar state\<close>

text \<open>
  What the sidebar widgets return on one run of the script: the two dates of
  \<^verbatim>\<open>date_range\<close> (day numbers), the two multiselect lists, the search text and the two
  buttons. The multiselect options are the non-missing values of a column, so a
  selection is a list of texts and never holds a missing value.
\<close>

record ui_state =
  date_range :: "int \<times> int"
  selected_stations :: "string list"
  selected_crimes :: "string list"
  search_fir :: string
  show_due :: bool
  show_unarrested :: bool

text \<open>\<^verbatim>\<open>Series.dropna().unique().tolist()\<close>: the values in order of first appearance.\<close>

definition unique :: "'a list \<Rightarrow> 'a list" where
  "unique xs = rev (remdups (rev xs))"

definition stations :: "crime_record list \<Rightarrow> string list" where
  "stations df = unique (List.map_filter police_station df)"

definition crime_types :: "crime_record list \<Rightarrow> string list" where
  "crime_types df = unique (List.map_filter crime_type df)"

subsection \<open>The three terminal modes\<close>

definition search_result :: "regex_engine \<Rightarrow> crime_record list \<Rightarrow> string \<Rightarrow> py_error + crime_record list" where
  "search_result engine df q =
     (case str_contains engine q (map (\<lambda>r. astype_str (fir_number r)) df) of
        Inl e \<Rightarrow> Inl e
      | Inr keep \<Rightarrow> Inr (select_rows df keep))"

text \<open>
  Lines 83 to 85: the due-date column, the days-left column, and the rows kept. Each
  of the two column operations raises on the first cell that overflows; both raise
  the same error, so the two are computed here row by row.
\<close>

definition cs_due :: "crime_record \<Rightarrow> py_error + int option" where
  "cs_due r = ts_add (date_reported r) (60 * ns_per_day)"

definition days_left :: "int \<Rightarrow> crime_record \<Rightarrow> py_error + int option" where
  "days_left today r =
     (case cs_due r of
        Inl e \<Rightarrow> Inl e
      | Inr due \<Rightarrow> (case ts_sub due (Some today) of
                      Inl e \<Rightarrow> Inl e
                    | Inr delta \<Rightarrow> Inr (dt_days delta)))"

definition due_soon_df :: "int \<Rightarrow> crime_record list \<Rightarrow> py_error + crime_record list" where
  "due_soon_df today df =
     (case column (days_left today) df of
        Inl e \<Rightarrow> Inl e
      | Inr left \<Rightarrow>
          Inr (select_rows df
                 (map (\<lambda>(r, d). str_lower (astype_str (chargesheet_filed r)) \<noteq> ''yes''
                                  \<and> na_le d 10 \<and> na_ge d 0)
                      (zip df left))))"

text \<open>Line 101: the column of whole days since the report, and the rows kept.\<close>

definition unarrested_days :: "int \<Rightarrow> crime_record \<Rightarrow> py_error + int option" where
  "unarrested_days today r =
     (case ts_sub (Some today) (date_reported r) of
        Inl e \<Rightarrow> Inl e
      | Inr delta \<Rightarrow> Inr (dt_days delta))"

definition unarrested_df :: "int \<Rightarrow> crime_record list \<Rightarrow> py_error + crime_record list" where
  "unarrested_df today df =
     (case column (unarrested_days today) df of
        Inl e \<Rightarrow> Inl e
      | Inr days \<Rightarrow>
          Inr (select_rows df
                 (map (\<lambda>(r, d). str_lower (astype_str (accused_arrested r)) \<noteq> ''yes''
                                  \<and> na_gt d 45)
                      (zip df days))))"

subsection \<open>The standard filter\<close>

text \<open>\<^verbatim>\<open>Series.isin(values)\<close> with a list of texts: a missing cell is in no such list.\<close>

definition isin :: "string option \<Rightarrow> string list \<Rightarrow> bool" where
  "isin v vals = (case v of None \<Rightarrow> False | Some s \<Rightarrow> s \<in> set vals)"

definition filtered_df :: "crime_record list \<Rightarrow> int \<times> int \<Rightarrow> string list \<Rightarrow> string list \<Rightarrow> crime_record list" where
  "filtered_df df dr sel_stations sel_crimes =
     filter (\<lambda>r. na_ge (date_reported r) (to_datetime (fst dr))
                \<and> na_le (date_reported r) (to_datetime (snd dr))
                \<and> isin (police_station r) sel_stations
                \<and> isin (crime_type r) sel_crimes) df"

subsection \<open>Metrics\<close>

definition fir_to_arrest :: "crime_record \<Rightarrow> py_error + int option" where
  "fir_to_arrest r =
     (case ts_sub (arrest_date r) (date_reported r) of
        Inl e \<Rightarrow> Inl e
      | Inr delta \<Rightarrow> Inr (dt_days delta))"

definition arrest_to_chargesheet :: "crime_record \<Rightarrow> py_error + int option" where
  "arrest_to_chargesheet r =
     (case ts_sub (chargesheet_date r) (arrest_date r) of
        Inl e \<Rightarrow> Inl e
      | Inr delta \<Rightarrow> Inr (dt_days delta))"

text \<open>
  \<^verbatim>\<open>Series.mean()\<close> skips missing entries: it adds up the entries that are present,
  counts them, and divides; with none present the result is NaN (\<open>None\<close>). The
  quotient is exact here, where pandas rounds it to a float.
\<close>

fun nansum_count :: "int option list \<Rightarrow> int \<times> nat" where
  "nansum_count [] = (0, 0)"
| "nansum_count (None # xs) = nansum_count xs"
| "nansum_count (Some v # xs) = (case nansum_count xs of (s, n) \<Rightarrow> (s + v, Suc n))"

definition series_mean :: "int option list \<Rightarrow> rat option" where
  "series_mean col =
     (case nansum_count col of (s, n) \<Rightarrow> if n = 0 then None else Some (of_int s / of_nat n))"

definition avg_fir_arrest :: "crime_record list \<Rightarrow> py_error + rat option" where
  "avg_fir_arrest fdf =
     (case column fir_to_arrest fdf of
        Inl e \<Rightarrow> Inl e
      | Inr lags \<Rightarrow> Inr (series_mean lags))"

definition avg_arrest_cs :: "crime_record list \<Rightarrow> py_error + rat option" where
  "avg_arrest_cs fdf =
     (case column arrest_to_chargesheet fdf of
        Inl e \<Rightarrow> Inl e
      | Inr lags \<Rightarrow> Inr (series_mean lags))"

subsection \<open>Category counts\<close>

text \<open>
  \<^verbatim>\<open>Series.value_counts()\<close>: one row per value that occurs, with the number of its
  occurrences; missing cells are not counted. The rows are listed in order of first
  appearance; the order by falling count that pandas gives them is not modelled.
\<close>

definition value_counts :: "'a option list \<Rightarrow> ('a \<times> nat) list" where
  "value_counts col =
     (let vals = List.map_filter id col
      in map (\<lambda>k. (k, count_list vals k)) (unique vals))"

definition crime_type_counts :: "crime_record list \<Rightarrow> (string \<times> nat) list" where
  "crime_type_counts fdf = value_counts (map crime_type fdf)"

definition ps_counts :: "crime_record list \<Rightarrow> (string \<times> nat) list" where
  "ps_counts fdf = value_counts (map police_station fdf)"

definition status_counts :: "crime_record list \<Rightarrow> (string \<times> nat) list" where
  "status_counts fdf = value_counts (map status fdf)"

subsection \<open>Monthly trend\<close>

definition digit_char :: "int \<Rightarrow> char" where
  "digit_char d = char_of (48 + nat d)"

text \<open>\<^verbatim>\<open>str(Period)\<close> at monthly frequency: the year in four digits, a dash, the month in two.\<close>

definition period_str :: "int \<Rightarrow> int \<Rightarrow> string" where
  "period_str y m =
     [digit_char (y div 1000 mod 10), digit_char (y div 100 mod 10),
      digit_char (y div 10 mod 10), digit_char (y mod 10), CHR ''-'',
      digit_char (m div 10 mod 10), digit_char (m mod 10)]"

definition month_year :: "crime_record \<Rightarrow> string" where
  "month_year r =
     (case date_reported r of
        None \<Rightarrow> ''NaT''
      | Some t \<Rightarrow> period_str (year_of t) (month_of t))"

text \<open>
  \<^verbatim>\<open>groupby(['month_year', 'crime_type']).size().reset_index(name='count')\<close>: rows with a
  missing key are left out, the groups come sorted by their key pair (texts compare
  character by character), each with the number of its rows.
\<close>

definition group_keys :: "crime_record list \<Rightarrow> (string \<times> string) list" where
  "group_keys fdf = List.map_filter (\<lambda>r. map_option (\<lambda>c. (month_year r, c)) (crime_type r)) fdf"

definition monthly_counts :: "crime_record list \<Rightarrow> (string \<times> string \<times> nat) list" where
  "monthly_counts fdf =
     (let keys = group_keys fdf
      in map (\<lambda>k. (fst k, snd k, count_list keys k)) (sort (remdups keys)))"

subsection \<open>Seasons\<close>

definition season_map :: "int \<rightharpoonup> string" where
  "season_map = map_of
     [(12, ''Winter''), (1, ''Winter''), (2, ''Winter''),
      (3, ''Spring''), (4, ''Spring''), (5, ''Summer''),
      (6, ''Summer''), (7, ''Monsoon''), (8, ''Monsoon''), (9, ''Monsoon''),
      (10, ''Autumn''), (11, ''Autumn'')]"

definition month :: "crime_record \<Rightarrow> int option" where
  "month r = map_option month_of (date_reported r)"

text \<open>\<^verbatim>\<open>Series.map(dict)\<close>: a missing cell, or a key the dict lacks, gives a missing cell.\<close>

definition season :: "crime_record \<Rightarrow> string option" where
  "season r = (case month r of None \<Rightarrow> None | Some m \<Rightarrow> season_map m)"

definition season_counts :: "crime_record list \<Rightarrow> (string \<times> nat) list" where
  "season_counts fdf = value_counts (map season fdf)"

subsection \<open>Map markers\<close>

text \<open>\<^verbatim>\<open>str.split(',')\<close>: the pieces between the commas; a text without comma is one piece.\<close>

fun split_on :: "char \<Rightarrow> string \<Rightarrow> string list" where
  "split_on sep [] = [[]]"
| "split_on sep (c # cs) =
     (if c = sep then [] # split_on sep cs
      else (case split_on sep cs of
              [] \<Rightarrow> [[c]]
            | p # ps \<Rightarrow> (c # p) # ps))"

text \<open>
  Python's \<^verbatim>\<open>float(text)\<close>: white space around the text is dropped; an underscore may
  stand between two digits; then comes an optional sign and either \<^verbatim>\<open>inf\<close>,
  \<^verbatim>\<open>infinity\<close> or \<^verbatim>\<open>nan\<close> in any case, or a decimal numeral with at least one digit, an
  optional point and an optional exponent. Anything else raises \<^verbatim>\<open>ValueError\<close>
  (\<open>None\<close>). A finite value is the exact rational here, where Python rounds to a
  double.
\<close>

datatype pyfloat = Finite rat | Infinity bool | NaN

definition is_space :: "char \<Rightarrow> bool" where
  "is_space c = (c \<in> set [CHR 0x09, CHR 0x0A, CHR 0x0B, CHR 0x0C, CHR 0x0D,
                            CHR 0x1C, CHR 0x1D, CHR 0x1E, CHR 0x1F, CHR 0x20])"

definition strip :: "string \<Rightarrow> string" where
  "strip s = rev (dropWhile is_space (rev (dropWhile is_space s)))"

definition is_digit :: "char \<Rightarrow> bool" where
  "is_digit c = (c \<in> set ''0123456789'')"

definition digit_value :: "char \<Rightarrow> nat" where
  "digit_value c = of_char c - 48"

definition digits_value :: "string \<Rightarrow> nat" where
  "digits_value ds = foldl (\<lambda>a c. 10 * a + digit_value c) 0 ds"

fun underscores_ok :: "char \<Rightarrow> string \<Rightarrow> bool" where
  "underscores_ok prev [] = (prev \<noteq> CHR ''_'')"
| "underscores_ok prev (c # cs) =
     ((if c = CHR ''_'' then is_digit prev
       else if prev = CHR ''_'' then is_digit c else True)
      \<and> underscores_ok c cs)"

definition split_sign :: "string \<Rightarrow> bool \<times> string" where
  "split_sign s =
     (case s of
        [] \<Rightarrow> (False, [])
      | c # cs \<Rightarrow> if c = CHR ''-'' then (True, cs)
                 else if c = CHR ''+'' then (False, cs)
                 else (False, s))"

definition parse_exponent :: "string \<Rightarrow> int option" where
  "parse_exponent s =
     (case split_sign s of
        (neg, ds) \<Rightarrow>
          if ds \<noteq> [] \<and> list_all is_digit ds
          then Some (if neg then - int (digits_value ds) else int (digits_value ds))
          else None)"

definition pow10 :: "int \<Rightarrow> rat" where
  "pow10 e = (if 0 \<le> e then 10 ^ nat e else 1 / 10 ^ nat (- e))"

definition parse_decimal :: "bool \<Rightarrow> string \<Rightarrow> pyfloat option" where
  "parse_decimal neg body =
     (let ip = takeWhile is_digit body;
          r1 = dropWhile is_digit body;
          has_dot = (case r1 of [] \<Rightarrow> False | c # _ \<Rightarrow> c = CHR ''.'');
          fp = (if has_dot then takeWhile is_digit (tl r1) else []);
          r2 = (if has_dot then dropWhile is_digit (tl r1) else r1);
          mant = of_nat (digits_value (ip @ fp)) / 10 ^ length fp;
          signed = (if neg then - mant else mant)
      in if ip = [] \<and> fp = [] then None
         else (case r2 of
                 [] \<Rightarrow> Some (Finite signed)
               | c # cs \<Rightarrow>
                   if c = CHR ''e'' \<or> c = CHR ''E''
                   then map_option (\<lambda>e. Finite (signed * pow10 e)) (parse_exponent cs)
                   else None))"

definition parse_float :: "string \<Rightarrow> pyfloat option" where
  "parse_float s =
     (case split_sign s of
        (neg, body) \<Rightarrow>
          if str_lower body = ''inf'' \<or> str_lower body = ''infinity'' then Some (Infinity neg)
          else if str_lower body = ''nan'' then Some NaN
          else parse_decimal neg body)"

definition py_float :: "string \<Rightarrow> pyfloat option" where
  "py_float s =
     (let t = strip s
      in if underscores_ok (CHR 0x00) t then parse_float (filter (\<lambda>c. c \<noteq> CHR ''_'') t)
         else None)"

definition color_map :: "string \<rightharpoonup> string" where
  "color_map = map_of
     [(''Theft'', ''red''), (''Murder'', ''black''), (''Assault'', ''orange''),
      (''Drugs'', ''green''), (''Cybercrime'', ''blue''), (''Other'', ''purple'')]"

record marker =
  marker_location :: "pyfloat \<times> pyfloat"
  popup_fir :: "string option"
  popup_crime :: "string option"
  popup_date :: "int option"
  popup_location :: string
  icon_color :: string

text \<open>
  One turn of the marker loop. Everything after the \<^verbatim>\<open>notnull\<close> test runs inside
  \<^verbatim>\<open>try\<close> with a bare \<^verbatim>\<open>except: continue\<close>, so any exception there means no marker for
  this row and the loop goes on: unpacking the pieces into \<^verbatim>\<open>lat, lon\<close> needs exactly
  two of them, \<^verbatim>\<open>float\<close> must accept both, and \<^verbatim>\<open>folium.Marker\<close> refuses a NaN coordinate.
\<close>

definition marker_for :: "crime_record \<Rightarrow> marker option" where
  "marker_for r =
     (case location r of
        None \<Rightarrow> None
      | Some location_str \<Rightarrow>
          (case split_on (CHR '','') location_str of
             [a, b] \<Rightarrow>
               (case (py_float a, py_float b) of
                  (Some lat, Some lon) \<Rightarrow>
                    if lat = NaN \<or> lon = NaN then None
                    else Some \<lparr>marker_location = (lat, lon),
                               popup_fir = fir_number r,
                               popup_crime = crime_type r,
                               popup_date = map_option (\<lambda>t. t div ns_per_day) (date_reported r),
                               popup_location = location_str,
                               icon_color =
                                 (case crime_type r of
                                    None \<Rightarrow> ''gray''
                                  | Some crime \<Rightarrow>
                                      (case color_map crime of
                                         None \<Rightarrow> ''gray''
                                       | Some color \<Rightarrow> color))\<rparr>
                | _ \<Rightarrow> None)
           | _ \<Rightarrow> None))"

definition markers :: "crime_record list \<Rightarrow> marker list" where
  "markers fdf = List.map_filter marker_for fdf"

subsection \<open>One run of the script\<close>

record dashboard =
  total_cases :: nat
  fir_numbers :: nat
  arrests_made :: nat
  chargesheets_filed :: nat
  mean_fir_arrest :: "rat option"
  mean_arrest_cs :: "rat option"
  by_crime_type :: "(string \<times> nat) list"
  by_station :: "(string \<times> nat) list"
  by_status :: "(string \<times> nat) list"
  trend :: "(string \<times> string \<times> nat) list"
  by_season :: "(string \<times> nat) list"
  map_markers :: "marker list"

text \<open>
  Lines 121 to 254, all computed from the filtered rows. The two lag columns are the
  only steps that may raise; when one does, the script stops there.
\<close>

definition render :: "crime_record list \<Rightarrow> py_error + dashboard" where
  "render fdf =
     (case avg_fir_arrest fdf of
        Inl e \<Rightarrow> Inl e
      | Inr m1 \<Rightarrow>
          (case avg_arrest_cs fdf of
             Inl e \<Rightarrow> Inl e
           | Inr m2 \<Rightarrow>
               Inr \<lparr>total_cases = length fdf,
                    fir_numbers = length (filter (\<lambda>r. fir_number r \<noteq> None) fdf),
                    arrests_made = length (filter (\<lambda>r. str_lower (astype_str (accused_arrested r)) = ''yes'') fdf),
                    chargesheets_filed = length (filter (\<lambda>r. str_lower (astype_str (chargesheet_filed r)) = ''yes'') fdf),
                    mean_fir_arrest = m1,
                    mean_arrest_cs = m2,
                    by_crime_type = crime_type_counts fdf,
                    by_station = ps_counts fdf,
                    by_status = status_counts fdf,
                    trend = monthly_counts fdf,
                    by_season = season_counts fdf,
                    map_markers = markers fdf\<rparr>))"

datatype view =
    SearchResult "crime_record list"
  | DueSoon "crime_record list"
  | Unarrested "crime_record list"
  | Dashboard dashboard

text \<open>
  The script from the sidebar down: a non-empty search text shows the search result
  and stops; else the chargesheet button shows the due list and stops; else the
  unarrested button shows its list and stops; else the standard filter feeds the
  dashboard. \<open>today\<close> is \<^verbatim>\<open>datetime.now()\<close>. A run that raises shows none of these.
\<close>

definition app :: "regex_engine \<Rightarrow> int \<Rightarrow> crime_record list \<Rightarrow> ui_state \<Rightarrow> py_error + view" where
  "app engine today df ui =
     (if search_fir ui \<noteq> [] then
        (case search_result engine df (search_fir ui) of
           Inl e \<Rightarrow> Inl e
         | Inr res \<Rightarrow> Inr (SearchResult res))
      else if show_due ui then
        (case due_soon_df today df of
           Inl e \<Rightarrow> Inl e
         | Inr res \<Rightarrow> Inr (DueSoon res))
      else if show_unarrested ui then
        (case unarrested_df today df of
           Inl e \<Rightarrow> Inl e
         | Inr res \<Rightarrow> Inr (Unarrested res))
      else
        (case render (filtered_df df (date_range ui) (selected_stations ui) (selected_crimes ui)) of
           Inl e \<Rightarrow> Inl e
         | Inr d \<Rightarrow> Inr (Dashboard d)))"

subsection \<open>Example data\<close>

definition case_jan :: crime_record where
  "case_jan =
     \<lparr>case_id = Some ''C-1'', fir_number = Some ''12/2024'',
      police_station = Some ''Kotwali'', crime_type = Some ''Theft'',
      date_reported = Some (timestamp 2024 1 1), arrest_date = Some (timestamp 2024 1 10),
      chargesheet_date = None, accused_arrested = Some ''Yes'',
      chargesheet_filed = Some ''No'', status = Some ''Open'',
      location = Some ''19.0748,82.0186''\<rparr>"

definition case_feb :: crime_record where
  "case_feb =
     \<lparr>case_id = Some ''C-2'', fir_number = None,
      police_station = Some ''Bodhghat'', crime_type = Some ''Assault'',
      date_reported = Some (timestamp 2023 2 14), arrest_date = None,
      chargesheet_date = None, accused_arrested = None,
      chargesheet_filed = None, status = None,
      location = Some ''not,a,coord''\<rparr>"

definition case_undated :: crime_record where
  "case_undated =
     \<lparr>case_id = Some ''C-3'', fir_number = Some ''77/2023'',
      police_station = None, crime_type = Some ''Theft'',
      date_reported = None, arrest_date = None,
      chargesheet_date = None, accused_arrested = Some ''no'',
      chargesheet_filed = Some ''YES'', status = Some ''Closed'',
      location = None\<rparr>"

definition ui_all :: ui_state where
  "ui_all =
     \<lparr>date_range = (days_from_civil 2023 1 1, days_from_civil 2024 12 31),
      selected_stations = [''Kotwali'', ''Bodhghat''],
      selected_crimes = [''Theft'', ''Assault''],
      search_fir = [], show_due = False, show_unarrested = False\<rparr>"

definition no_regex :: regex_engine where
  "no_regex pat = None"

definition case_new_year :: crime_record where
  "case_new_year = case_undated\<lparr>police_station := Some ''Kotwali'', date_reported := Some (to_datetime 19358)\<rparr>"

definition case_charged :: crime_record where
  "case_charged =
     case_jan\<lparr>arrest_date := Some (timestamp 2024 1 4),
              chargesheet_date := Some (timestamp 2024 2 25),
              chargesheet_filed := Some ''yes''\<rparr>"

text \<open>
  The specification's wording for a usable \<^verbatim>\<open>location\<close>: exactly two comma-separated
  numeric values, numeric meaning that \<^verbatim>\<open>float\<close> accepts the piece.
\<close>

definition two_numeric_values :: "string \<Rightarrow> bool" where
  "two_numeric_values loc =
     (case split_on (CHR '','') loc of
        [a, b] \<Rightarrow> py_float a \<noteq> None \<and> py_float b \<noteq> None
      | _ \<Rightarrow> False)"

definition bad_location :: "crime_record \<Rightarrow> bool" where
  "bad_location r = (case location r of None \<Rightarrow> True | Some loc \<Rightarrow> \<not> two_numeric_values loc)"

definition case_old :: crime_record where
  "case_old = case_jan\<lparr>date_reported := Some (timestamp 1700 1 1)\<rparr>"

definition case_filed :: crime_record where
  "case_filed = case_jan\<lparr>case_id := Some ''C-4'', chargesheet_filed := Some ''YES''\<rparr>"

definition case_noon_end :: crime_record where
  "case_noon_end = case_jan\<lparr>date_reported := Some (to_datetime 20088 + 43200000000000)\<rparr>"

subsection \<open>The wording of the specification\<close>

text \<open>A flag is yes when its text is \<^verbatim>\<open>yes\<close> in any letter case.\<close>

definition yes_casings :: "string list" where
  "yes_casings = [''yes'', ''yeS'', ''yEs'', ''yES'', ''Yes'', ''YeS'', ''YEs'', ''YES'']"

definition flag_is_yes :: "string option \<Rightarrow> bool" where
  "flag_is_yes v = (case v of None \<Rightarrow> False | Some s \<Rightarrow> s \<in> set yes_casings)"

text \<open>
  A lag in whole days between two dates, undefined unless both are present; and the
  mean of the defined values of a set, undefined for an empty set.
\<close>

definition lag_days :: "int option \<Rightarrow> int option \<Rightarrow> int option" where
  "lag_days later earlier =
     (case (later, earlier) of
        (Some x, Some y) \<Rightarrow> Some ((x - y) div ns_per_day)
      | _ \<Rightarrow> None)"

definition mean_of :: "int list \<Rightarrow> rat option" where
  "mean_of vals = (if vals = [] then None else Some (of_int (sum_list vals) / of_nat (length vals)))"

text \<open>
  The differences of dates that the 64-bit count of nanoseconds can hold (a little
  over 292 years either way): for the lag of a row, for its due date and days left,
  and for its days since the report.
\<close>

definition lag_fits :: "int option \<Rightarrow> int option \<Rightarrow> bool" where
  "lag_fits later earlier =
     (case (later, earlier) of
        (Some x, Some y) \<Rightarrow> valid_ts (x - y)
      | _ \<Rightarrow> True)"

definition due_fits :: "int \<Rightarrow> crime_record \<Rightarrow> bool" where
  "due_fits today r =
     (case date_reported r of
        None \<Rightarrow> True
      | Some t \<Rightarrow> valid_ts (t + 60 * ns_per_day) \<and> valid_ts (t + 60 * ns_per_day - today))"

definition unarrested_fits :: "int \<Rightarrow> crime_record \<Rightarrow> bool" where
  "unarrested_fits today r =
     (case date_reported r of
        None \<Rightarrow> True
      | Some t \<Rightarrow> valid_ts (today - t))"

section \<open>Auxiliary facts\<close>

subsection \<open>Calendar\<close>

lemma div_bounds:
  fixes x k :: int
  assumes "0 < k"
  shows "(x div k) * k \<le> x \<and> x < (x div k) * k + k"
proof -
  have "x = (x div k) * k + x mod k" by simp
  moreover have "0 \<le> x mod k \<and> x mod k < k" using assms by simp
  ultimately show ?thesis by linarith
qed

lemma mp_range:
  fixes doy :: int
  assumes "0 \<le> doy" "doy \<le> 365"
  shows "0 \<le> (5 * doy + 2) div 153 \<and> (5 * doy + 2) div 153 \<le> 11"
proof -
  have "0 \<le> 5 * doy + 2" using assms by simp
  then have a: "0 \<le> (5 * doy + 2) div 153" by (simp add: pos_imp_zdiv_nonneg_iff)
  have "5 * doy + 2 < 153 * 12" using assms by simp
  then have "(5 * doy + 2) div 153 < 12" by (simp add: div_less_iff_less_mult)
  with a show ?thesis by simp
qed

lemma doq_range:
  fixes doc :: int
  shows "0 \<le> doc - doc div 1461 * 1461 \<and> doc - doc div 1461 * 1461 \<le> 1460"
  using div_bounds [of 1461 doc] by linarith

lemma doy_range:
  fixes doq :: int
  assumes "0 \<le> doq" "doq \<le> 1460"
  shows "0 \<le> doq - min 3 (doq div 365) * 365 \<and> doq - min 3 (doq div 365) * 365 \<le> 365"
proof (cases "doq div 365 \<le> 3")
  case True
  then have "min 3 (doq div 365) = doq div 365" by simp
  then show ?thesis using div_bounds [of 365 doq] by linarith
next
  case False
  then have m: "min 3 (doq div 365) = 3" by simp
  have "4 \<le> doq div 365" using False by simp
  then have "4 * 365 \<le> doq" using div_bounds [of 365 doq] by linarith
  then show ?thesis using m assms by simp
qed

lemma civil_month_range:
  "1 \<le> fst (snd (civil_from_days z)) \<and> fst (snd (civil_from_days z)) \<le> 12"
proof -
  define doe where "doe = (z + 719468) mod 146097"
  define doc where "doc = doe - min 3 (doe div 36524) * 36524"
  define doq where "doq = doc - doc div 1461 * 1461"
  define doy where "doy = doq - min 3 (doq div 365) * 365"
  define mp where "mp = (5 * doy + 2) div 153"
  have "0 \<le> doq \<and> doq \<le> 1460" unfolding doq_def by (rule doq_range)
  then have "0 \<le> doy \<and> doy \<le> 365" unfolding doy_def using doy_range by blast
  then have mp: "0 \<le> mp \<and> mp \<le> 11" unfolding mp_def using mp_range by blast
  have "fst (snd (civil_from_days z)) = (if mp < 10 then mp + 3 else mp - 9)"
    unfolding civil_from_days_def Let_def mp_def doy_def doq_def doc_def doe_def
    by (simp only: fst_conv snd_conv)
  with mp show ?thesis by auto
qed

lemma month_of_range: "1 \<le> month_of t \<and> month_of t \<le> 12"
  unfolding month_of_def by (rule civil_month_range)

lemma valid_ts_day:
  assumes "valid_ts t"
  shows "- 106752 \<le> t div ns_per_day \<and> t div ns_per_day \<le> 106751"
proof -
  have b: "- 9223372036854775808 < t \<and> t < 9223372036854775808"
    using assms by (simp add: valid_ts_def)
  have d: "(t div 86400000000000) * 86400000000000 \<le> t \<and> t < (t div 86400000000000) * 86400000000000 + 86400000000000"
    by (rule div_bounds) simp
  show ?thesis unfolding ns_per_day_def using b d by linarith
qed

lemma year_shift_cases:
  fixes a :: int
  shows "fst (if c then a + 1 else a, r) = a \<or> fst (if c then a + 1 else a, r) = a + 1"
  by simp

lemma civil_year_range:
  assumes "- 106752 \<le> z" "z \<le> 106751"
  shows "1600 \<le> fst (civil_from_days z) \<and> fst (civil_from_days z) \<le> 2400"
proof -
  define z' where "z' = z + 719468"
  define era where "era = z' div 146097"
  define doe where "doe = z' mod 146097"
  define cent where "cent = min 3 (doe div 36524)"
  define doc where "doc = doe - cent * 36524"
  define quad where "quad = doc div 1461"
  define doq where "doq = doc - quad * 1461"
  define yoq where "yoq = min 3 (doq div 365)"
  define y where "y = era * 400 + cent * 100 + quad * 4 + yoq"
  have e: "4 \<le> era \<and> era \<le> 5"
    using div_bounds [of 146097 z'] assms unfolding era_def z'_def by linarith
  have doe: "0 \<le> doe \<and> doe \<le> 146096" unfolding doe_def by simp
  have c0: "0 \<le> doe div 36524" using doe by (simp add: pos_imp_zdiv_nonneg_iff)
  then have c: "0 \<le> cent \<and> cent \<le> 3" unfolding cent_def by simp
  have "cent \<le> doe div 36524" unfolding cent_def by simp
  then have "cent * 36524 \<le> doe" using div_bounds [of 36524 doe] by linarith
  then have doc0: "0 \<le> doc" unfolding doc_def by simp
  have doc1: "doc \<le> 36524"
  proof (cases "doe div 36524 \<le> 3")
    case True
    then have "cent = doe div 36524" unfolding cent_def by simp
    then show ?thesis unfolding doc_def using div_bounds [of 36524 doe] by linarith
  next
    case False
    then have "cent = 3" unfolding cent_def by simp
    then show ?thesis unfolding doc_def using doe by simp
  qed
  have q: "0 \<le> quad \<and> quad \<le> 24"
    using div_bounds [of 1461 doc] doc0 doc1 unfolding quad_def by linarith
  have "0 \<le> doq" unfolding doq_def quad_def using div_bounds [of 1461 doc] by linarith
  then have "0 \<le> doq div 365" by (simp add: pos_imp_zdiv_nonneg_iff)
  then have yq: "0 \<le> yoq \<and> yoq \<le> 3" unfolding yoq_def by simp
  have y: "1600 \<le> y \<and> y \<le> 2399" unfolding y_def using e c q yq by linarith
  have "fst (civil_from_days z) = y \<or> fst (civil_from_days z) = y + 1"
    unfolding civil_from_days_def Let_def y_def yoq_def doq_def quad_def doc_def cent_def doe_def era_def z'_def
    by (rule year_shift_cases)
  with y show ?thesis by linarith
qed

lemma year_of_range:
  assumes "valid_ts t"
  shows "1600 \<le> year_of t \<and> year_of t \<le> 2400"
  unfolding year_of_def using valid_ts_day [OF assms] civil_year_range by blast

subsection \<open>Period labels\<close>

lemma digit_char_code:
  assumes "0 \<le> a" "a \<le> 9"
  shows "of_char (digit_char a) = 48 + nat a"
proof -
  have "(48 + nat a) mod 256 = 48 + nat a" using assms by simp
  then show ?thesis by (simp add: digit_char_def)
qed

lemma digit_char_less_iff:
  assumes "0 \<le> a" "a \<le> 9" "0 \<le> b" "b \<le> 9"
  shows "digit_char a < digit_char b \<longleftrightarrow> a < b"
  using assms by (auto simp: less_char_def digit_char_code)

lemma digit_char_eq_iff:
  assumes "0 \<le> a" "a \<le> 9" "0 \<le> b" "b \<le> 9"
  shows "digit_char a = digit_char b \<longleftrightarrow> a = b"
proof
  assume "digit_char a = digit_char b"
  then have "(of_char (digit_char a) :: nat) = of_char (digit_char b)" by simp
  then have "48 + nat a = 48 + nat b" using assms by (simp add: digit_char_code)
  then show "a = b" using assms by simp
qed simp

lemma decimal4:
  fixes y :: int
  assumes "0 \<le> y" "y < 10000"
  shows "y = 1000 * (y div 1000 mod 10) + 100 * (y div 100 mod 10) + 10 * (y div 10 mod 10) + y mod 10"
proof -
  have h: "y div 100 = y div 10 div 10" using zdiv_zmult2_eq [of 10 y 10] by simp
  have t: "y div 1000 = y div 100 div 10" using zdiv_zmult2_eq [of 10 y 100] by simp
  have "y div 1000 < 10" using assms by (simp add: div_less_iff_less_mult)
  moreover have "0 \<le> y div 1000" using assms by (simp add: pos_imp_zdiv_nonneg_iff)
  ultimately have m: "y div 1000 mod 10 = y div 1000" by simp
  have a: "y = 10 * (y div 10) + y mod 10" by simp
  have b: "y div 10 = 10 * (y div 100) + y div 10 mod 10" unfolding h by simp
  have c: "y div 100 = 10 * (y div 1000) + y div 100 mod 10" unfolding t by simp
  show ?thesis using a b c m by linarith
qed

lemma decimal_less:
  fixes a3 a2 a1 a0 b3 b2 b1 b0 :: int
  assumes "0 \<le> a2" "a2 \<le> 9" "0 \<le> a1" "a1 \<le> 9" "0 \<le> a0" "a0 \<le> 9"
    and "0 \<le> b2" "b2 \<le> 9" "0 \<le> b1" "b1 \<le> 9" "0 \<le> b0" "b0 \<le> 9"
    and "1000 * a3 + 100 * a2 + 10 * a1 + a0 < 1000 * b3 + 100 * b2 + 10 * b1 + b0"
  shows "a3 < b3 \<or> a3 = b3 \<and> (a2 < b2 \<or> a2 = b2 \<and> (a1 < b1 \<or> a1 = b1 \<and> a0 < b0))"
  using assms by linarith

lemma digit_mod_less:
  "digit_char (x mod 10) < digit_char (z mod 10) \<longleftrightarrow> x mod 10 < z mod 10"
  by (rule digit_char_less_iff) simp_all

lemma digit_mod_eq:
  "digit_char (x mod 10) = digit_char (z mod 10) \<longleftrightarrow> x mod 10 = z mod 10"
  by (rule digit_char_eq_iff) simp_all

lemma period_str_less_iff:
  "period_str y1 m1 < period_str y2 m2 \<longleftrightarrow>
     (y1 div 1000 mod 10 < y2 div 1000 mod 10 \<or> y1 div 1000 mod 10 = y2 div 1000 mod 10 \<and>
     (y1 div 100 mod 10 < y2 div 100 mod 10 \<or> y1 div 100 mod 10 = y2 div 100 mod 10 \<and>
     (y1 div 10 mod 10 < y2 div 10 mod 10 \<or> y1 div 10 mod 10 = y2 div 10 mod 10 \<and>
     (y1 mod 10 < y2 mod 10 \<or> y1 mod 10 = y2 mod 10 \<and>
     (m1 div 10 mod 10 < m2 div 10 mod 10 \<or> m1 div 10 mod 10 = m2 div 10 mod 10 \<and>
      m1 mod 10 < m2 mod 10)))))"
  unfolding period_str_def
  by (simp only: Cons_less_Cons digit_mod_less digit_mod_eq simp_thms less_irrefl Nil_less_Cons not_less_Nil)

lemma period_str_less:
  assumes y1: "0 \<le> y1" "y1 < 10000" and y2: "0 \<le> y2" "y2 < 10000"
    and m1: "0 \<le> m1" "m1 < 100" and m2: "0 \<le> m2" "m2 < 100"
    and lt: "y1 < y2 \<or> y1 = y2 \<and> m1 < m2"
  shows "period_str y1 m1 < period_str y2 m2"
proof -
  have r: "0 \<le> x mod 10 \<and> x mod 10 \<le> 9" for x :: int by simp
  have dm: "m = 10 * (m div 10 mod 10) + m mod 10" if "0 \<le> m" "m < 100" for m :: int
  proof -
    have "m div 10 < 10" using that by (simp add: div_less_iff_less_mult)
    moreover have "0 \<le> m div 10" using that by (simp add: pos_imp_zdiv_nonneg_iff)
    ultimately have "m div 10 mod 10 = m div 10" by simp
    then show ?thesis by simp
  qed
  show ?thesis
  proof (cases "y1 < y2")
    case True
    then have "1000 * (y1 div 1000 mod 10) + 100 * (y1 div 100 mod 10) + 10 * (y1 div 10 mod 10) + y1 mod 10
      < 1000 * (y2 div 1000 mod 10) + 100 * (y2 div 100 mod 10) + 10 * (y2 div 10 mod 10) + y2 mod 10"
      using decimal4 [OF y1] decimal4 [OF y2] by linarith
    then have "y1 div 1000 mod 10 < y2 div 1000 mod 10 \<or> y1 div 1000 mod 10 = y2 div 1000 mod 10 \<and>
      (y1 div 100 mod 10 < y2 div 100 mod 10 \<or> y1 div 100 mod 10 = y2 div 100 mod 10 \<and>
      (y1 div 10 mod 10 < y2 div 10 mod 10 \<or> y1 div 10 mod 10 = y2 div 10 mod 10 \<and> y1 mod 10 < y2 mod 10))"
      by (intro decimal_less) (simp_all only: r)
    then show ?thesis
      unfolding period_str_less_iff by blast
  next
    case False
    with lt have e: "y1 = y2" and l: "m1 < m2" by auto
    have "10 * (m1 div 10 mod 10) + m1 mod 10 < 10 * (m2 div 10 mod 10) + m2 mod 10"
      using dm [OF m1] dm [OF m2] l by linarith
    then have "m1 div 10 mod 10 < m2 div 10 mod 10 \<or> m1 div 10 mod 10 = m2 div 10 mod 10 \<and> m1 mod 10 < m2 mod 10"
      using r [of m1] r [of m2] by linarith
    then show ?thesis
      unfolding period_str_less_iff e by blast
  qed
qed

subsection \<open>The example data evaluated\<close>

lemma ts_jan01: "timestamp 2024 1 1 = 1704067200000000000"
  by (simp add: timestamp_def to_datetime_def days_from_civil_def ns_per_day_def)

lemma ts_jan10: "timestamp 2024 1 10 = 1704844800000000000"
  by (simp add: timestamp_def to_datetime_def days_from_civil_def ns_per_day_def)

lemma ts_feb14: "timestamp 2023 2 14 = 1676332800000000000"
  by (simp add: timestamp_def to_datetime_def days_from_civil_def ns_per_day_def)

lemma ts_feb25: "timestamp 2024 2 25 = 1708819200000000000"
  by (simp add: timestamp_def to_datetime_def days_from_civil_def ns_per_day_def)

lemma ts_mar01: "timestamp 2024 3 1 = 1709251200000000000"
  by (simp add: timestamp_def to_datetime_def days_from_civil_def ns_per_day_def)

lemma ui_all_range: "date_range ui_all = (19358, 20088)"
  by (simp add: ui_all_def days_from_civil_def)

lemma ui_all_fields:
  "selected_stations ui_all = [''Kotwali'', ''Bodhghat'']"
  "selected_crimes ui_all = [''Theft'', ''Assault'']"
  "search_fir ui_all = []" "show_due ui_all = False" "show_unarrested ui_all = False"
  by (simp_all add: ui_all_def)

lemma filtered_examples:
  "filtered_df [case_jan, case_feb, case_undated] (date_range ui_all)
      (selected_stations ui_all) (selected_crimes ui_all) = [case_jan, case_feb]"
  by (simp add: filtered_df_def ui_all_range case_jan_def case_feb_def case_undated_def
      ts_jan01 ts_feb14 na_ge_def na_le_def isin_def to_datetime_def ns_per_day_def ui_all_fields)

subsection \<open>Missing values in comparisons\<close>

lemma na_bounds_iff:
  "na_le v hi \<and> na_ge v lo \<longleftrightarrow> (\<exists>d. v = Some d \<and> lo \<le> d \<and> d \<le> hi)"
  by (cases v) (auto simp: na_le_def na_ge_def)

lemma na_gt_iff: "na_gt v b \<longleftrightarrow> (\<exists>d. v = Some d \<and> b < d)"
  by (cases v) (auto simp: na_gt_def)

lemma na_ge_iff: "na_ge v b \<longleftrightarrow> (\<exists>d. v = Some d \<and> b \<le> d)"
  by (cases v) (auto simp: na_ge_def)

lemma na_le_iff: "na_le v b \<longleftrightarrow> (\<exists>d. v = Some d \<and> d \<le> b)"
  by (cases v) (auto simp: na_le_def)

lemma lower_examples:
  "str_lower ''Yes'' = ''yes''" "str_lower ''No'' = ''no''" "str_lower ''nan'' = ''nan''"
  "str_lower ''no'' = ''no''" "str_lower ''YES'' = ''yes''"
  by (simp_all add: str_lower_def lower_char_def ascii_upper_def ascii_lower_def)

subsection \<open>The standard filter\<close>

lemma filtered_df_append:
  "filtered_df (xs @ ys) dr ss sc = filtered_df xs dr ss sc @ filtered_df ys dr ss sc"
  by (simp add: filtered_df_def)

lemma filtered_df_member:
  "r \<in> set (filtered_df df dr ss sc) \<longleftrightarrow>
     r \<in> set df \<and> na_ge (date_reported r) (to_datetime (fst dr))
     \<and> na_le (date_reported r) (to_datetime (snd dr))
     \<and> isin (police_station r) ss \<and> isin (crime_type r) sc"
  by (auto simp: filtered_df_def)

lemma to_datetime_mono: "a \<le> b \<Longrightarrow> to_datetime a \<le> to_datetime b"
  by (simp add: to_datetime_def ns_per_day_def)

subsection \<open>Means and further examples\<close>

lemma map_filter_Cons_None: "f x = None \<Longrightarrow> List.map_filter f (x # xs) = List.map_filter f xs"
  by (simp add: List.map_filter_def)

lemma map_filter_Cons_Some: "f x = Some y \<Longrightarrow> List.map_filter f (x # xs) = y # List.map_filter f xs"
  by (simp add: List.map_filter_def)

lemma map_filter_Nil: "List.map_filter f [] = []"
  by (simp add: List.map_filter_def)

lemma nansum_count_eq:
  "nansum_count (map f xs) = (sum_list (List.map_filter f xs), length (List.map_filter f xs))"
proof (induction xs)
  case Nil
  show ?case by (simp add: map_filter_Nil)
next
  case (Cons x xs)
  show ?case
  proof (cases "f x")
    case None
    then show ?thesis using Cons by (simp add: map_filter_Cons_None)
  next
    case (Some v)
    then show ?thesis using Cons by (simp add: map_filter_Cons_Some)
  qed
qed

lemma series_mean_eq:
  "series_mean (map f xs) =
     (if List.map_filter f xs = [] then None
      else Some (of_int (sum_list (List.map_filter f xs)) / of_nat (length (List.map_filter f xs))))"
  by (simp add: series_mean_def nansum_count_eq)

lemma ts_jan04: "timestamp 2024 1 4 = 1704326400000000000"
  by (simp add: timestamp_def to_datetime_def days_from_civil_def ns_per_day_def)

lemma month_examples:
  "month_of (timestamp 2024 1 1) = 1" "month_of (timestamp 2023 2 14) = 2"
  "year_of (timestamp 2024 1 1) = 2024" "year_of (timestamp 2023 2 14) = 2023"
  by code_simp+

subsection \<open>The monthly trend table\<close>

lemma monthly_counts_length:
  "length (monthly_counts fdf) = length (sort (remdups (group_keys fdf)))"
  by (simp add: monthly_counts_def Let_def)

lemma monthly_counts_label:
  assumes "i < length (monthly_counts fdf)"
  shows "fst (monthly_counts fdf ! i) = fst (sort (remdups (group_keys fdf)) ! i)"
  using assms by (simp add: monthly_counts_def Let_def)

lemma monthly_labels_sorted:
  assumes "i \<le> j" and "j < length (monthly_counts fdf)"
  shows "fst (monthly_counts fdf ! i) \<le> fst (monthly_counts fdf ! j)"
proof -
  let ?ks = "sort (remdups (group_keys fdf))"
  have j: "j < length ?ks" using assms(2) by (simp only: monthly_counts_length)
  have "sorted ?ks" by simp
  then have "?ks ! i \<le> ?ks ! j" using assms(1) j by (rule sorted_nth_mono)
  then have "fst (?ks ! i) \<le> fst (?ks ! j)" by (auto simp: less_eq_prod_def)
  then show ?thesis using assms by (simp add: monthly_counts_label)
qed

lemma map_filter_member:
  "x \<in> set xs \<Longrightarrow> f x = Some y \<Longrightarrow> y \<in> set (List.map_filter f xs)"
  by (induction xs) (auto split: option.split)

lemma group_keys_member:
  assumes "r \<in> set fdf" and "crime_type r = Some c"
  shows "(month_year r, c) \<in> set (group_keys fdf)"
  unfolding group_keys_def using assms(1) by (rule map_filter_member) (simp add: assms(2))

lemma monthly_counts_group:
  assumes "r \<in> set fdf" and "crime_type r = Some c"
  shows "\<exists>k < length (monthly_counts fdf).
           fst (monthly_counts fdf ! k) = month_year r
           \<and> fst (snd (monthly_counts fdf ! k)) = c
           \<and> 0 < snd (snd (monthly_counts fdf ! k))"
proof -
  let ?keys = "group_keys fdf"
  let ?ks = "sort (remdups ?keys)"
  have m: "(month_year r, c) \<in> set ?keys" using assms by (rule group_keys_member)
  then have "(month_year r, c) \<in> set ?ks" by simp
  then obtain k where k: "k < length ?ks" "?ks ! k = (month_year r, c)"
    by (metis in_set_conv_nth)
  have "count_list ?keys (month_year r, c) \<noteq> 0" using m by (simp add: count_list_0_iff)
  then have "0 < count_list ?keys (month_year r, c)" by simp
  then show ?thesis using k by (intro exI [of _ k]) (simp add: monthly_counts_def Let_def)
qed

lemma month_year_less:
  assumes "date_reported r1 = Some t1" "valid_ts t1" "date_reported r2 = Some t2" "valid_ts t2"
    and "year_of t1 < year_of t2 \<or> year_of t1 = year_of t2 \<and> month_of t1 < month_of t2"
  shows "month_year r1 < month_year r2"
proof -
  have "period_str (year_of t1) (month_of t1) < period_str (year_of t2) (month_of t2)"
    using year_of_range [OF assms(2)] year_of_range [OF assms(4)]
      month_of_range [of t1] month_of_range [of t2] assms(5)
    by (intro period_str_less) linarith+
  then show ?thesis using assms(1,3) by (simp add: month_year_def)
qed

lemma trend_examples:
  "monthly_counts [case_jan, case_feb, case_charged]
     = [(''2023-02'', ''Assault'', 1), (''2024-01'', ''Theft'', 2)]"
  "month_year case_feb = ''2023-02''" "month_year case_jan = ''2024-01''"
  by code_simp+


lemma valid_ts_examples: "valid_ts (timestamp 2023 2 14)" "valid_ts (timestamp 2024 1 1)"
  by (simp_all add: valid_ts_def ts_feb14 ts_jan01)

subsection \<open>Category counts and markers\<close>

lemma set_unique: "set (unique xs) = set xs"
  by (simp add: unique_def)

lemma value_counts_member:
  assumes "Some k \<in> set col"
  shows "(k, count_list (List.map_filter id col) k) \<in> set (value_counts col)
       \<and> 0 < count_list (List.map_filter id col) k"
proof -
  let ?vals = "List.map_filter id col"
  have m: "k \<in> set ?vals" using assms by (rule map_filter_member) simp
  then have "count_list ?vals k \<noteq> 0" by (simp add: count_list_0_iff)
  moreover have "(k, count_list ?vals k) \<in> (\<lambda>k. (k, count_list ?vals k)) ` set (unique ?vals)"
    using m by (simp add: set_unique)
  ultimately show ?thesis by (simp add: value_counts_def Let_def)
qed

lemma counted_in:
  assumes "r \<in> set fdf" and "f r = Some k"
  shows "\<exists>n. (k, n) \<in> set (value_counts (map f fdf)) \<and> 0 < n"
proof -
  have "f r \<in> f ` set fdf" using assms(1) by (rule imageI)
  then have "Some k \<in> set (map f fdf)" using assms(2) by simp
  from value_counts_member [OF this] show ?thesis by (intro exI)
qed

lemma marker_for_bad:
  assumes "bad_location r"
  shows "marker_for r = None"
proof (cases "location r")
  case None
  then show ?thesis by (simp add: marker_for_def)
next
  case (Some loc)
  with assms have n: "\<not> two_numeric_values loc" by (simp add: bad_location_def)
  show ?thesis
  proof (cases "\<exists>a b. split_on (CHR '','') loc = [a, b]")
    case True
    then obtain a b where ab: "split_on (CHR '','') loc = [a, b]" by blast
    with n have "py_float a = None \<or> py_float b = None" by (simp add: two_numeric_values_def)
    then show ?thesis using Some ab by (auto simp: marker_for_def split: option.split)
  next
    case False
    then show ?thesis using Some
      by (simp add: marker_for_def split: list.split)
  qed
qed

lemma markers_append: "markers (xs @ ys) = markers xs @ markers ys"
  by (simp add: markers_def List.map_filter_def)

lemma markers_skip: "marker_for r = None \<Longrightarrow> markers (r # ys) = markers ys"
  by (simp add: markers_def)

lemma season_map_defined:
  assumes "1 \<le> m" and "m \<le> 12"
  shows "\<exists>s. season_map m = Some s"
proof -
  from assms have "m = 1 \<or> m = 2 \<or> m = 3 \<or> m = 4 \<or> m = 5 \<or> m = 6 \<or> m = 7 \<or> m = 8
      \<or> m = 9 \<or> m = 10 \<or> m = 11 \<or> m = 12" by arith
  then show ?thesis by (elim disjE) (simp_all add: season_map_def)
qed

lemma filtered_has_season:
  assumes "r \<in> set (filtered_df df dr ss sc)"
  shows "\<exists>s. season r = Some s"
proof -
  from assms obtain t where t: "date_reported r = Some t"
    by (auto simp: filtered_df_member na_ge_iff)
  have "\<exists>s. season_map (month_of t) = Some s"
    using month_of_range [of t] by (intro season_map_defined) simp_all
  then show ?thesis using t by (simp add: season_def month_def)
qed


lemma filtered_has_categories:
  assumes "r \<in> set (filtered_df df dr ss sc)"
  shows "(\<exists>s. police_station r = Some s) \<and> (\<exists>c. crime_type r = Some c)"
  using assms by (auto simp: filtered_df_member isin_def split: option.splits)

lemma bad_location_examples: "bad_location case_feb" "status case_feb = None"
  by (simp_all add: bad_location_def two_numeric_values_def case_feb_def)

lemma filtered_feb:
  "filtered_df [case_jan, case_feb] (date_range ui_all)
      (selected_stations ui_all) (selected_crimes ui_all) = [case_jan, case_feb]"
  by (simp add: filtered_df_def ui_all_range case_jan_def case_feb_def
      ts_jan01 ts_feb14 na_ge_def na_le_def isin_def to_datetime_def ns_per_day_def ui_all_fields)

lemma counts_examples:
  "ps_counts [case_jan, case_feb] = [(''Kotwali'', 1), (''Bodhghat'', 1)]"
  "crime_type_counts [case_jan, case_feb] = [(''Theft'', 1), (''Assault'', 1)]"
  "season_counts [case_jan, case_feb] = [(''Winter'', 2)]"
  "status_counts [case_jan, case_feb] = [(''Open'', 1)]"
  "markers [case_feb] = []"
  by code_simp+

subsection \<open>Searching\<close>

lemma starts_with_iff: "starts_with p s \<longleftrightarrow> (\<exists>post. s = p @ post)"
  by (induction p s rule: starts_with.induct) auto

lemma is_substring_iff: "is_substring p s \<longleftrightarrow> (\<exists>pre post. s = pre @ p @ post)"
proof (induction s)
  case Nil
  show ?case by simp
next
  case (Cons c cs)
  have "(\<exists>pre post. c # cs = pre @ p @ post)
      \<longleftrightarrow> (\<exists>post. c # cs = p @ post) \<or> (\<exists>pre post. cs = pre @ p @ post)"
  proof
    assume "\<exists>pre post. c # cs = pre @ p @ post"
    then obtain pre post where e: "c # cs = pre @ p @ post" by blast
    show "(\<exists>post. c # cs = p @ post) \<or> (\<exists>pre post. cs = pre @ p @ post)"
    proof (cases pre)
      case Nil
      with e show ?thesis by auto
    next
      case (Cons a pre')
      with e have "cs = pre' @ p @ post" by simp
      then show ?thesis by blast
    qed
  next
    assume "(\<exists>post. c # cs = p @ post) \<or> (\<exists>pre post. cs = pre @ p @ post)"
    then show "\<exists>pre post. c # cs = pre @ p @ post"
    proof
      assume "\<exists>post. c # cs = p @ post"
      then obtain post where "c # cs = [] @ p @ post" by auto
      then show ?thesis by blast
    next
      assume "\<exists>pre post. cs = pre @ p @ post"
      then obtain pre post where "c # cs = (c # pre) @ p @ post" by auto
      then show ?thesis by blast
    qed
  qed
  then show ?case using Cons by (simp add: starts_with_iff)
qed

lemma select_rows_map: "select_rows df (map P df) = filter P df"
  by (induction df) (simp_all add: select_rows_def)

lemma search_result_literal:
  assumes "literal_pattern q"
  shows "search_result engine df q =
           Inr (filter (\<lambda>r. is_substring (str_lower q) (str_lower (astype_str (fir_number r)))) df)"
proof -
  have "map (\<lambda>x. is_substring (str_lower q) (str_lower x)) (map (\<lambda>r. astype_str (fir_number r)) df)
      = map (\<lambda>r. is_substring (str_lower q) (str_lower (astype_str (fir_number r)))) df"
    by simp
  then show ?thesis using assms
    by (simp add: search_result_def str_contains_def select_rows_map del: map_map)
qed

lemma filter_filter_fir:
  "filter (\<lambda>r. fir_number r \<noteq> None)
      (filter (\<lambda>r. is_substring q' (str_lower (astype_str (fir_number r)))) df)
   = filter (\<lambda>r. case fir_number r of None \<Rightarrow> False
                   | Some f \<Rightarrow> \<exists>pre post. str_lower f = pre @ q' @ post) df"
proof -
  have h: "(is_substring q' (str_lower (astype_str (fir_number r))) \<and> fir_number r \<noteq> None)
      = (case fir_number r of None \<Rightarrow> False | Some f \<Rightarrow> \<exists>pre post. str_lower f = pre @ q' @ post)" for r
    by (cases "fir_number r") (simp_all add: astype_str_def is_substring_iff)
  show ?thesis by (simp only: filter_filter h)
qed

lemma search_examples:
  "app no_regex 0 [case_jan, case_feb, case_undated] (ui_all\<lparr>search_fir := ''12/''\<rparr>)
     = Inr (SearchResult [case_jan])"
  "literal_pattern ''12/''"
  "app no_regex 0 [case_jan, case_feb] (ui_all\<lparr>search_fir := ''nan''\<rparr>)
     = Inr (SearchResult [case_feb])"
  "fir_number case_feb = None"
  "app no_regex 0 [case_jan, case_feb] (ui_all\<lparr>search_fir := ''.''\<rparr>)
     = Inr (SearchResult [case_jan, case_feb])"
  "fir_number case_jan = Some ''12/2024''"
  "\<not> is_substring (str_lower ''.'') (str_lower ''12/2024'')"
  by code_simp+

subsection \<open>Further behaviour of the search and of the date bounds\<close>

text \<open>
  A search text with a character special to regular expressions is not a substring
  test: the rows are those the compiled pattern finds, or the run ends in an error
  when the text does not compile. The dot alone already finds every row that has a
  character other than a newline.
\<close>

lemma search_result_regex:
  assumes "\<not> literal_pattern q" and "\<not> dot_pattern q"
  shows "search_result engine df q =
           (case engine q of
              None \<Rightarrow> Inl ReError
            | Some search \<Rightarrow> Inr (filter (\<lambda>r. search (astype_str (fir_number r))) df))"
proof (cases "engine q")
  case None
  then show ?thesis using assms by (simp add: search_result_def str_contains_def)
next
  case (Some search)
  have "map search (map (\<lambda>r. astype_str (fir_number r)) df)
      = map (\<lambda>r. search (astype_str (fir_number r))) df"
    by simp
  then show ?thesis using assms Some
    by (simp add: search_result_def str_contains_def select_rows_map del: map_map)
qed

text \<open>
  The end of the date range is the midnight that begins the end date: a row reported
  later on that day lies after the bound.
\<close>

lemma after_end_bound:
  assumes "date_reported r = Some (to_datetime (snd dr) + k)" and "0 < k"
  shows "r \<notin> set (filtered_df df dr ss sc)"
  using assms by (simp add: filtered_df_member na_le_def)

subsection \<open>Columns, flags and the two button modes\<close>

lemma column_values:
  assumes "\<forall>x \<in> set xs. f x = Inr (g x)"
  shows "column f xs = Inr (map g xs)"
  using assms by (induction xs) simp_all

lemma column_overflow:
  assumes "x \<in> set xs" and "f x = Inl OverflowError"
    and "\<And>y e. f y = Inl e \<Longrightarrow> e = OverflowError"
  shows "column f xs = Inl OverflowError"
  using assms(1,2)
proof (induction xs)
  case Nil
  then show ?case by simp
next
  case (Cons a xs)
  show ?case
  proof (cases "f a")
    case (Inl e)
    then show ?thesis using assms(3) [of a e] by simp
  next
    case (Inr y)
    with Cons have "column f xs = Inl OverflowError" by auto
    with Inr show ?thesis by simp
  qed
qed

lemma select_rows_zip:
  "select_rows df (map (\<lambda>(r, d). P r d) (zip df (map g df))) = filter (\<lambda>r. P r (g r)) df"
  by (induction df) (simp_all add: select_rows_def)

lemma lower_char_y: "lower_char c = CHR ''y'' \<longleftrightarrow> c = CHR ''y'' \<or> c = CHR ''Y''"
  by (auto simp: lower_char_def ascii_upper_def ascii_lower_def split: if_splits)

lemma lower_char_e: "lower_char c = CHR ''e'' \<longleftrightarrow> c = CHR ''e'' \<or> c = CHR ''E''"
  by (auto simp: lower_char_def ascii_upper_def ascii_lower_def split: if_splits)

lemma lower_char_s: "lower_char c = CHR ''s'' \<longleftrightarrow> c = CHR ''s'' \<or> c = CHR ''S''"
  by (auto simp: lower_char_def ascii_upper_def ascii_lower_def split: if_splits)


lemma map_eq_ConsD:
  "map f xs = y # ys \<Longrightarrow> \<exists>a as. xs = a # as \<and> f a = y \<and> map f as = ys"
  by (cases xs) auto

lemma yes_casings_intro:
  assumes "a = CHR ''y'' \<or> a = CHR ''Y''" "b = CHR ''e'' \<or> b = CHR ''E''" "c = CHR ''s'' \<or> c = CHR ''S''"
  shows "[a, b, c] \<in> set yes_casings"
  using assms unfolding yes_casings_def by (elim disjE) simp_all

lemma str_lower_yesD:
  assumes "str_lower s = ''yes''"
  shows "s \<in> set yes_casings"
proof -
  from assms have m: "map lower_char s = CHR ''y'' # [CHR ''e'', CHR ''s'']"
    by (simp only: str_lower_def)
  from map_eq_ConsD [OF m] obtain a s1 where s: "s = a # s1" and a: "lower_char a = CHR ''y''"
    and m1: "map lower_char s1 = CHR ''e'' # [CHR ''s'']" by (elim exE conjE)
  from map_eq_ConsD [OF m1] obtain b s2 where s1: "s1 = b # s2" and b: "lower_char b = CHR ''e''"
    and m2: "map lower_char s2 = CHR ''s'' # []" by (elim exE conjE)
  from map_eq_ConsD [OF m2] obtain c s3 where s2: "s2 = c # s3" and c: "lower_char c = CHR ''s''"
    and m3: "map lower_char s3 = []" by (elim exE conjE)
  from m3 have s3: "s3 = []" by simp
  have e: "s = [a, b, c]" by (simp only: s s1 s2 s3)
  show ?thesis unfolding e
    by (rule yes_casings_intro) (simp_all only: a b c lower_char_y [symmetric] lower_char_e [symmetric] lower_char_s [symmetric])
qed

lemma str_lower_yes: "str_lower s = ''yes'' \<longleftrightarrow> s \<in> set yes_casings"
proof
  assume "str_lower s = ''yes''"
  then show "s \<in> set yes_casings" by (rule str_lower_yesD)
next
  assume "s \<in> set yes_casings"
  then have "s = ''yes'' \<or> s = ''yeS'' \<or> s = ''yEs'' \<or> s = ''yES''
      \<or> s = ''Yes'' \<or> s = ''YeS'' \<or> s = ''YEs'' \<or> s = ''YES''"
    by (simp add: yes_casings_def)
  then show "str_lower s = ''yes''"
    by (elim disjE) (simp_all add: str_lower_def lower_char_y lower_char_e lower_char_s)
qed

lemma flag_yes_iff: "str_lower (astype_str v) = ''yes'' \<longleftrightarrow> flag_is_yes v"
proof (cases v)
  case None
  have "str_lower ''nan'' \<noteq> ''yes''" by (simp add: str_lower_yes yes_casings_def)
  then show ?thesis using None by (simp add: astype_str_def flag_is_yes_def)
next
  case (Some s)
  then show ?thesis by (simp add: astype_str_def flag_is_yes_def str_lower_yes)
qed

lemma ts_error: "ts_sub a b = Inl e \<Longrightarrow> e = OverflowError" "ts_add a k = Inl e \<Longrightarrow> e = OverflowError"
  by (auto simp: ts_sub_def ts_add_def split: option.splits if_splits)

lemma days_left_error: "days_left today r = Inl e \<Longrightarrow> e = OverflowError"
  by (auto simp: days_left_def cs_due_def dest: ts_error split: sum.splits)

lemma days_left_fits:
  assumes "due_fits today r"
  shows "days_left today r =
           Inr (map_option (\<lambda>t. (t + 60 * ns_per_day - today) div ns_per_day) (date_reported r))"
  using assms
  by (cases "date_reported r")
     (simp_all add: due_fits_def days_left_def cs_due_def ts_add_def ts_sub_def dt_days_def)

lemma days_left_overflow:
  assumes "\<not> due_fits today r"
  shows "days_left today r = Inl OverflowError"
  using assms
  by (cases "date_reported r")
     (auto simp: due_fits_def days_left_def cs_due_def ts_add_def ts_sub_def dt_days_def)

lemma unarrested_days_error: "unarrested_days today r = Inl e \<Longrightarrow> e = OverflowError"
  by (auto simp: unarrested_days_def dest: ts_error split: sum.splits)

lemma unarrested_days_fits:
  assumes "unarrested_fits today r"
  shows "unarrested_days today r =
           Inr (map_option (\<lambda>t. (today - t) div ns_per_day) (date_reported r))"
  using assms
  by (cases "date_reported r")
     (simp_all add: unarrested_fits_def unarrested_days_def ts_sub_def dt_days_def)

lemma unarrested_days_overflow:
  assumes "\<not> unarrested_fits today r"
  shows "unarrested_days today r = Inl OverflowError"
  using assms
  by (cases "date_reported r")
     (auto simp: unarrested_fits_def unarrested_days_def ts_sub_def dt_days_def)

lemma due_soon_df_fits:
  assumes "\<forall>r \<in> set df. due_fits today r"
  shows "due_soon_df today df =
           Inr (filter (\<lambda>r. \<not> flag_is_yes (chargesheet_filed r)
                  \<and> (case date_reported r of
                        None \<Rightarrow> False
                      | Some t \<Rightarrow> 0 \<le> (t + 60 * ns_per_day - today) div ns_per_day
                                  \<and> (t + 60 * ns_per_day - today) div ns_per_day \<le> 10)) df)"
proof -
  let ?g = "\<lambda>r. map_option (\<lambda>t. (t + 60 * ns_per_day - today) div ns_per_day) (date_reported r)"
  have c: "column (days_left today) df = Inr (map ?g df)"
    using assms by (intro column_values) (simp add: days_left_fits)
  have p: "(str_lower (astype_str (chargesheet_filed r)) \<noteq> ''yes'' \<and> na_le (?g r) 10 \<and> na_ge (?g r) 0)
      = (\<not> flag_is_yes (chargesheet_filed r)
          \<and> (case date_reported r of
                None \<Rightarrow> False
              | Some t \<Rightarrow> 0 \<le> (t + 60 * ns_per_day - today) div ns_per_day
                          \<and> (t + 60 * ns_per_day - today) div ns_per_day \<le> 10))" for r
    by (cases "date_reported r") (auto simp: flag_yes_iff na_le_def na_ge_def)
  have "due_soon_df today df =
      Inr (filter (\<lambda>r. str_lower (astype_str (chargesheet_filed r)) \<noteq> ''yes''
                        \<and> na_le (?g r) 10 \<and> na_ge (?g r) 0) df)"
    unfolding due_soon_df_def c by (simp only: sum.case select_rows_zip)
  then show ?thesis by (simp only: p)
qed

lemma due_soon_df_overflow:
  assumes "\<not> (\<forall>r \<in> set df. due_fits today r)"
  shows "due_soon_df today df = Inl OverflowError"
proof -
  from assms obtain r where "r \<in> set df" "\<not> due_fits today r" by blast
  then have "column (days_left today) df = Inl OverflowError"
    by (intro column_overflow [of r]) (simp_all add: days_left_overflow days_left_error)
  then show ?thesis by (simp add: due_soon_df_def)
qed

lemma unarrested_df_fits:
  assumes "\<forall>r \<in> set df. unarrested_fits today r"
  shows "unarrested_df today df =
           Inr (filter (\<lambda>r. \<not> flag_is_yes (accused_arrested r)
                  \<and> (case date_reported r of
                        None \<Rightarrow> False
                      | Some t \<Rightarrow> 45 < (today - t) div ns_per_day)) df)"
proof -
  let ?g = "\<lambda>r. map_option (\<lambda>t. (today - t) div ns_per_day) (date_reported r)"
  have c: "column (unarrested_days today) df = Inr (map ?g df)"
    using assms by (intro column_values) (simp add: unarrested_days_fits)
  have p: "(str_lower (astype_str (accused_arrested r)) \<noteq> ''yes'' \<and> na_gt (?g r) 45)
      = (\<not> flag_is_yes (accused_arrested r)
          \<and> (case date_reported r of
                None \<Rightarrow> False
              | Some t \<Rightarrow> 45 < (today - t) div ns_per_day))" for r
    by (cases "date_reported r") (auto simp: flag_yes_iff na_gt_def)
  have "unarrested_df today df =
      Inr (filter (\<lambda>r. str_lower (astype_str (accused_arrested r)) \<noteq> ''yes'' \<and> na_gt (?g r) 45) df)"
    unfolding unarrested_df_def c by (simp only: sum.case select_rows_zip)
  then show ?thesis by (simp only: p)
qed

lemma unarrested_df_overflow:
  assumes "\<not> (\<forall>r \<in> set df. unarrested_fits today r)"
  shows "unarrested_df today df = Inl OverflowError"
proof -
  from assms obtain r where "r \<in> set df" "\<not> unarrested_fits today r" by blast
  then have "column (unarrested_days today) df = Inl OverflowError"
    by (intro column_overflow [of r]) (simp_all add: unarrested_days_overflow unarrested_days_error)
  then show ?thesis by (simp add: unarrested_df_def)
qed

subsection \<open>The two button modes on the example data\<close>

lemma ts_old: "timestamp 1700 1 1 = - 8520336000000000000"
  by (simp add: timestamp_def to_datetime_def days_from_civil_def ns_per_day_def)

lemma cs_due_example:
  assumes "date_reported r = Some (timestamp 2024 1 1)"
  shows "cs_due r = Inr (Some (timestamp 2024 3 1))"
    and "days_left (timestamp 2024 2 25) r = Inr (Some 5)"
  using assms
  by (simp_all add: days_left_def cs_due_def ts_add_def ts_sub_def dt_days_def valid_ts_def
      ts_jan01 ts_mar01 ts_feb25 ns_per_day_def)

lemma due_examples:
  "app no_regex (timestamp 2024 2 25) [case_jan, case_filed, case_feb, case_undated]
      (ui_all\<lparr>show_due := True\<rparr>) = Inr (DueSoon [case_jan])"
  "app no_regex (timestamp 2024 2 25) [case_jan, case_old] (ui_all\<lparr>show_due := True\<rparr>)
      = Inl OverflowError"
  "days_left (timestamp 2024 2 25) case_jan = Inr (Some 5)"
  "cs_due case_jan = Inr (Some (timestamp 2024 3 1))"
  "chargesheet_filed case_jan = Some ''No''"
  "chargesheet_filed case_filed = Some ''YES''"
  "days_left (timestamp 2024 2 25) case_filed = Inr (Some 5)"
  "valid_ts (timestamp 1700 1 1)"
  "date_reported case_old = Some (timestamp 1700 1 1)"
  "\<forall>r \<in> set [case_jan, case_filed, case_feb, case_undated]. due_fits (timestamp 2024 2 25) r"
  by code_simp+

lemma due_filter_example:
  "filter (\<lambda>r. \<not> flag_is_yes (chargesheet_filed r)
            \<and> (case date_reported r of
                  None \<Rightarrow> False
                | Some t \<Rightarrow> 0 \<le> (t + 60 * ns_per_day - timestamp 2024 2 25) div ns_per_day
                            \<and> (t + 60 * ns_per_day - timestamp 2024 2 25) div ns_per_day \<le> 10))
      [case_jan, case_filed, case_feb, case_undated] = [case_jan]"
  by code_simp

lemma unarrested_df_skip:
  assumes "date_reported r = None"
  shows "unarrested_df today (xs @ r # ys) = unarrested_df today (xs @ ys)"
proof -
  have f: "unarrested_fits today r" using assms by (simp add: unarrested_fits_def)
  show ?thesis
  proof (cases "\<forall>x \<in> set (xs @ ys). unarrested_fits today x")
    case True
    then have "\<forall>x \<in> set (xs @ r # ys). unarrested_fits today x" using f by auto
    then show ?thesis using True assms by (simp add: unarrested_df_fits)
  next
    case False
    then have n: "\<not> (\<forall>x \<in> set (xs @ r # ys). unarrested_fits today x)" by auto
    show ?thesis
      by (simp only: unarrested_df_overflow [OF n] unarrested_df_overflow [OF False])
  qed
qed

lemma unarrested_examples:
  "\<forall>r \<in> set [case_jan, case_undated, case_feb]. unarrested_fits (timestamp 2024 2 25) r"
  "filter (\<lambda>r. \<not> flag_is_yes (accused_arrested r)
            \<and> (case date_reported r of
                  None \<Rightarrow> False
                | Some t \<Rightarrow> 45 < (timestamp 2024 2 25 - t) div ns_per_day))
      [case_jan, case_undated, case_feb] = [case_feb]"
  "app no_regex (timestamp 2024 2 25) [case_jan, case_feb] (ui_all\<lparr>show_unarrested := True\<rparr>)
      = Inr (Unarrested [case_feb])"
  "app no_regex (timestamp 2024 2 25) [case_feb, case_old] (ui_all\<lparr>show_unarrested := True\<rparr>)
      = Inl OverflowError"
  "accused_arrested case_feb = None"
  "date_reported case_feb = Some (timestamp 2023 2 14)"
  "(timestamp 2024 2 25 - timestamp 2023 2 14) div ns_per_day = 376"
  "accused_arrested case_jan = Some ''Yes''"
  "(timestamp 2024 2 25 - timestamp 2024 1 1) div ns_per_day = 55"
  "date_reported case_undated = None"
  by code_simp+

subsection \<open>The lag columns\<close>

lemma lag_error:
  "fir_to_arrest r = Inl e \<Longrightarrow> e = OverflowError"
  "arrest_to_chargesheet r = Inl e \<Longrightarrow> e = OverflowError"
  by (auto simp: fir_to_arrest_def arrest_to_chargesheet_def dest: ts_error split: sum.splits)

lemma lag_value:
  assumes "lag_fits a b"
  shows "(case ts_sub a b of Inl e \<Rightarrow> Inl e | Inr delta \<Rightarrow> Inr (dt_days delta)) = Inr (lag_days a b)"
  using assms
  by (cases a; cases b) (simp_all add: lag_fits_def lag_days_def ts_sub_def dt_days_def)

lemma lag_overflow:
  assumes "\<not> lag_fits a b"
  shows "(case ts_sub a b of Inl e \<Rightarrow> Inl e | Inr delta \<Rightarrow> Inr (dt_days delta)) = Inl OverflowError"
  using assms
  by (cases a; cases b) (simp_all add: lag_fits_def ts_sub_def)

lemma mean_of_series: "series_mean (map f xs) = mean_of (List.map_filter f xs)"
  by (simp only: series_mean_eq mean_of_def)

lemma avg_fir_arrest_fits:
  assumes "\<forall>r \<in> set fdf. lag_fits (arrest_date r) (date_reported r)"
  shows "avg_fir_arrest fdf =
           Inr (mean_of (List.map_filter (\<lambda>r. lag_days (arrest_date r) (date_reported r)) fdf))"
proof -
  have "column fir_to_arrest fdf = Inr (map (\<lambda>r. lag_days (arrest_date r) (date_reported r)) fdf)"
    using assms by (intro column_values) (simp add: fir_to_arrest_def lag_value)
  then show ?thesis by (simp add: avg_fir_arrest_def mean_of_series)
qed

lemma avg_fir_arrest_overflow:
  assumes "\<not> (\<forall>r \<in> set fdf. lag_fits (arrest_date r) (date_reported r))"
  shows "avg_fir_arrest fdf = Inl OverflowError"
proof -
  from assms obtain r where "r \<in> set fdf" "\<not> lag_fits (arrest_date r) (date_reported r)" by blast
  then have "column fir_to_arrest fdf = Inl OverflowError"
    by (intro column_overflow [of r]) (simp_all add: fir_to_arrest_def lag_overflow lag_error [unfolded fir_to_arrest_def])
  then show ?thesis by (simp add: avg_fir_arrest_def)
qed

lemma avg_arrest_cs_fits:
  assumes "\<forall>r \<in> set fdf. lag_fits (chargesheet_date r) (arrest_date r)"
  shows "avg_arrest_cs fdf =
           Inr (mean_of (List.map_filter (\<lambda>r. lag_days (chargesheet_date r) (arrest_date r)) fdf))"
proof -
  have "column arrest_to_chargesheet fdf = Inr (map (\<lambda>r. lag_days (chargesheet_date r) (arrest_date r)) fdf)"
    using assms by (intro column_values) (simp add: arrest_to_chargesheet_def lag_value)
  then show ?thesis by (simp add: avg_arrest_cs_def mean_of_series)
qed

lemma avg_arrest_cs_overflow:
  assumes "\<not> (\<forall>r \<in> set fdf. lag_fits (chargesheet_date r) (arrest_date r))"
  shows "avg_arrest_cs fdf = Inl OverflowError"
proof -
  from assms obtain r where "r \<in> set fdf" "\<not> lag_fits (chargesheet_date r) (arrest_date r)" by blast
  then have "column arrest_to_chargesheet fdf = Inl OverflowError"
    by (intro column_overflow [of r])
       (simp_all add: arrest_to_chargesheet_def lag_overflow lag_error [unfolded arrest_to_chargesheet_def])
  then show ?thesis by (simp add: avg_arrest_cs_def)
qed

lemma lag_examples:
  "\<forall>r \<in> set [case_jan, case_feb, case_charged]. lag_fits (arrest_date r) (date_reported r)"
  "\<forall>r \<in> set [case_jan, case_feb, case_charged]. lag_fits (chargesheet_date r) (arrest_date r)"
  "List.map_filter (\<lambda>r. lag_days (arrest_date r) (date_reported r)) [case_jan, case_feb, case_charged] = [9, 3]"
  "List.map_filter (\<lambda>r. lag_days (chargesheet_date r) (arrest_date r)) [case_jan, case_feb, case_charged] = [52]"
  "column fir_to_arrest [case_jan, case_feb, case_charged] = Inr [Some 9, None, Some 3]"
  "column arrest_to_chargesheet [case_jan, case_feb, case_charged] = Inr [None, None, Some 52]"
  "mean_of [9, 3] = Some 6" "mean_of [52] = Some 52"
  by code_simp+

lemma lag_overflow_examples:
  "valid_ts (timestamp 2024 1 10)"
  "arrest_date case_old = Some (timestamp 2024 1 10)"
  "fir_to_arrest case_jan = Inr (Some 9)"
  "fir_to_arrest case_feb = Inr None"
  "filtered_df [case_jan, case_feb, case_old] (- 98615, 20088)
      (selected_stations ui_all) (selected_crimes ui_all) = [case_jan, case_feb, case_old]"
  "avg_fir_arrest [case_jan, case_feb, case_old] = Inl OverflowError"
  "app no_regex (timestamp 2024 2 25) [case_jan, case_feb, case_old]
      (ui_all\<lparr>date_range := (- 98615, 20088)\<rparr>) = Inl OverflowError"
  by code_simp+

subsection \<open>The end of the date range on the example data\<close>

lemma noon_examples:
  "date_reported case_noon_end = Some (to_datetime 20088 + 43200000000000)"
  "(to_datetime 20088 + 43200000000000) div ns_per_day = 20088"
  "snd (date_range ui_all) = 20088"
  "isin (police_station case_noon_end) (selected_stations ui_all)"
  "isin (crime_type case_noon_end) (selected_crimes ui_all)"
  "filtered_df [case_jan, case_noon_end] (date_range ui_all)
      (selected_stations ui_all) (selected_crimes ui_all) = [case_jan]"
  "civil_from_days 20088 = (2024, 12, 31)"
  by code_simp+

subsection \<open>Rows the standard filter never keeps\<close>

lemma filtered_df_skip:
  assumes "police_station r = None \<or> crime_type r = None"
  shows "filtered_df (xs @ r # ys) dr ss sc = filtered_df (xs @ ys) dr ss sc"
  using assms by (auto simp: filtered_df_def isin_def)

lemma dashboard_examples:
  "police_station case_undated = None"
  "stations [case_jan, case_undated] = [''Kotwali'']"
  "crime_types [case_jan, case_undated] = [''Theft'']"
  "search_fir ui_all = [] \<and> \<not> show_due ui_all \<and> \<not> show_unarrested ui_all"
  "avg_fir_arrest [case_jan, case_feb] = Inr (Some 9)"
  "avg_arrest_cs [case_jan, case_feb] = Inr None"
  by code_simp+

lemma dashboard_example_run:
  "\<exists>d. app no_regex (timestamp 2024 2 25) ([case_jan] @ [case_feb]) ui_all = Inr (Dashboard d)
       \<and> total_cases d = 2 \<and> mean_fir_arrest d = Some 9
       \<and> by_station d = [(''Kotwali'', 1), (''Bodhghat'', 1)]"
proof -
  have "\<exists>d. render [case_jan, case_feb] = Inr d
       \<and> total_cases d = 2 \<and> mean_fir_arrest d = Some 9
       \<and> by_station d = [(''Kotwali'', 1), (''Bodhghat'', 1)]"
    by (simp add: render_def dashboard_examples(5,6) counts_examples(1))
  then show ?thesis
    using dashboard_examples(4) by (auto simp: app_def filtered_feb)
qed

section \<open>The properties of the specification\<close>

text \<open>
  C9. The standard filter is idempotent: filtering an already filtered record set
  again with the same date range, station set and crime-type set returns the same
  record set.
\<close>

theorem filter_idempotent:
  "filtered_df (filtered_df df dr sel_stations sel_crimes) dr sel_stations sel_crimes
     = filtered_df df dr sel_stations sel_crimes"
  by (simp add: filtered_df_def)

theorem filter_idempotent_witness:
  "filtered_df (filtered_df [case_jan, case_feb, case_undated] (date_range ui_all)
      (selected_stations ui_all) (selected_crimes ui_all)) (date_range ui_all)
      (selected_stations ui_all) (selected_crimes ui_all) = [case_jan, case_feb]"
  using filter_idempotent [of "[case_jan, case_feb, case_undated]" "date_range ui_all"
      "selected_stations ui_all" "selected_crimes ui_all"]
  by (simp only: filtered_examples)

text \<open>
  C7. The season table is defined on each of the twelve months and equals the fixed
  table: December, January, February are Winter; March, April are Spring; May, June
  are Summer; July, August, September are Monsoon; October, November are Autumn. So
  every row with a \<^verbatim>\<open>date_reported\<close> gets one of the five seasons. Month 1 is Winter,
  month 7 Monsoon, month 11 Autumn.
\<close>

theorem season_table_total:
  "(\<forall>m \<in> {1..12}. season_map m =
       Some (if m = 12 \<or> m \<le> 2 then ''Winter'' else if m \<le> 4 then ''Spring''
             else if m \<le> 6 then ''Summer'' else if m \<le> 9 then ''Monsoon'' else ''Autumn''))
   \<and> (date_reported r = Some t \<longrightarrow>
        season r = season_map (month_of t)
        \<and> season r \<in> {Some ''Winter'', Some ''Spring'', Some ''Summer'', Some ''Monsoon'', Some ''Autumn''})
   \<and> season_map 1 = Some ''Winter'' \<and> season_map 7 = Some ''Monsoon''
   \<and> season_map 11 = Some ''Autumn''"
proof -
  have tab: "season_map m =
       Some (if m = 12 \<or> m \<le> 2 then ''Winter'' else if m \<le> 4 then ''Spring''
             else if m \<le> 6 then ''Summer'' else if m \<le> 9 then ''Monsoon'' else ''Autumn'')"
    if "1 \<le> m" "m \<le> 12" for m
  proof -
    from that have "m = 1 \<or> m = 2 \<or> m = 3 \<or> m = 4 \<or> m = 5 \<or> m = 6 \<or> m = 7 \<or> m = 8
        \<or> m = 9 \<or> m = 10 \<or> m = 11 \<or> m = 12" by arith
    then show ?thesis by (elim disjE) (simp_all add: season_map_def)
  qed
  have sr: "season r = season_map (month_of t)" if "date_reported r = Some t"
    using that by (simp add: season_def month_def)
  have "season_map (month_of t) \<in> {Some ''Winter'', Some ''Spring'', Some ''Summer'', Some ''Monsoon'', Some ''Autumn''}"
    using tab [of "month_of t"] month_of_range [of t] by simp
  with sr tab show ?thesis by (simp add: season_map_def)
qed

theorem season_table_total_witness:
  "(7::int) \<in> {1..12} \<and> season_map 7 = Some ''Monsoon''
   \<and> date_reported case_jan = Some (timestamp 2024 1 1) \<and> season case_jan = Some ''Winter''"
proof -
  have h1: "(7::int) \<in> {1..12}" by simp
  have h2: "date_reported case_jan = Some (timestamp 2024 1 1)" by (simp add: case_jan_def)
  from season_table_total [of case_jan "timestamp 2024 1 1"] h2
  have "season case_jan = season_map (month_of (timestamp 2024 1 1))" and "season_map 7 = Some ''Monsoon''"
    and "season_map 1 = Some ''Winter''"
    by blast+
  with h1 h2 show ?thesis by (simp add: month_examples)
qed

text \<open>
  C3. In the monthly trend table the groups come in calendar order: whenever one row
  of the data was reported in an earlier calendar month (year first, then month) than
  another, every group labelled with the month of the first stands before every
  group labelled with the month of the second; and each row of the data that has a
  crime type does have its group in the table. February 2023 stands before January
  2024. The timestamps are those a \<^verbatim>\<open>datetime64[ns]\<close> column can hold.
\<close>

theorem trend_chronological:
  assumes "date_reported r1 = Some t1" and "valid_ts t1"
    and "date_reported r2 = Some t2" and "valid_ts t2"
    and "year_of t1 < year_of t2 \<or> year_of t1 = year_of t2 \<and> month_of t1 < month_of t2"
  shows "(\<forall>i j. i < length (monthly_counts fdf) \<and> j < length (monthly_counts fdf)
            \<and> fst (monthly_counts fdf ! i) = month_year r1
            \<and> fst (monthly_counts fdf ! j) = month_year r2 \<longrightarrow> i < j)
       \<and> (\<forall>c. r1 \<in> set fdf \<and> crime_type r1 = Some c \<longrightarrow>
            (\<exists>k < length (monthly_counts fdf).
               fst (monthly_counts fdf ! k) = month_year r1
               \<and> fst (snd (monthly_counts fdf ! k)) = c
               \<and> 0 < snd (snd (monthly_counts fdf ! k))))"
proof -
  have lt: "month_year r1 < month_year r2" using assms by (rule month_year_less)
  have "i < j"
    if "i < length (monthly_counts fdf)" "j < length (monthly_counts fdf)"
      "fst (monthly_counts fdf ! i) = month_year r1" "fst (monthly_counts fdf ! j) = month_year r2"
    for i j
  proof (rule ccontr)
    assume "\<not> i < j"
    then have "j \<le> i" by simp
    then have "fst (monthly_counts fdf ! j) \<le> fst (monthly_counts fdf ! i)"
      using that(1) by (rule monthly_labels_sorted)
    then show False using that(3,4) lt by simp
  qed
  then show ?thesis using monthly_counts_group by blast
qed

theorem trend_chronological_witness:
  "date_reported case_feb = Some (timestamp 2023 2 14) \<and> valid_ts (timestamp 2023 2 14)
   \<and> date_reported case_jan = Some (timestamp 2024 1 1) \<and> valid_ts (timestamp 2024 1 1)
   \<and> year_of (timestamp 2023 2 14) < year_of (timestamp 2024 1 1)
   \<and> monthly_counts [case_jan, case_feb, case_charged]
        = [(''2023-02'', ''Assault'', 1), (''2024-01'', ''Theft'', 2)]
   \<and> month_year case_feb = ''2023-02'' \<and> month_year case_jan = ''2024-01''
   \<and> fst (monthly_counts [case_jan, case_feb, case_charged] ! 0) = month_year case_feb
   \<and> fst (monthly_counts [case_jan, case_feb, case_charged] ! 1) = month_year case_jan
   \<and> (0::nat) < 1"
proof -
  have h1: "date_reported case_feb = Some (timestamp 2023 2 14)" by (simp add: case_feb_def)
  have h3: "date_reported case_jan = Some (timestamp 2024 1 1)" by (simp add: case_jan_def)
  have h5: "year_of (timestamp 2023 2 14) < year_of (timestamp 2024 1 1)"
    by (simp add: month_examples)
  then have h5': "year_of (timestamp 2023 2 14) < year_of (timestamp 2024 1 1)
      \<or> year_of (timestamp 2023 2 14) = year_of (timestamp 2024 1 1)
        \<and> month_of (timestamp 2023 2 14) < month_of (timestamp 2024 1 1)" by blast
  have l0: "0 < length (monthly_counts [case_jan, case_feb, case_charged])"
    and l1: "1 < length (monthly_counts [case_jan, case_feb, case_charged])"
    and f0: "fst (monthly_counts [case_jan, case_feb, case_charged] ! 0) = month_year case_feb"
    and f1: "fst (monthly_counts [case_jan, case_feb, case_charged] ! 1) = month_year case_jan"
    by (simp_all add: trend_examples)
  note w = trend_chronological [OF h1 valid_ts_examples(1) h3 valid_ts_examples(2) h5',
      of "[case_jan, case_feb, case_charged]"]
  from w l0 l1 f0 f1 have "(0::nat) < 1" by blast
  with h1 h3 h5 valid_ts_examples trend_examples f0 f1 show ?thesis by blast
qed

text \<open>
  C8. A row whose \<^verbatim>\<open>location\<close> is missing or is not exactly two comma-separated numeric
  values gets no map marker, and the marker loop goes on with the other rows as if
  the row were not there. If the row is in the filtered set, it is still counted in
  the crime-type, station and season counts of that set, and in the status count
  whenever its \<^verbatim>\<open>status\<close> is present.
\<close>

theorem bad_location_map_only:
  assumes "bad_location r"
  shows "marker_for r = None
       \<and> markers (xs @ r # ys) = markers xs @ markers ys
       \<and> (r \<in> set (filtered_df df dr ss sc) \<longrightarrow>
            (\<exists>s n. police_station r = Some s
                \<and> (s, n) \<in> set (ps_counts (filtered_df df dr ss sc)) \<and> 0 < n)
          \<and> (\<exists>c n. crime_type r = Some c
                \<and> (c, n) \<in> set (crime_type_counts (filtered_df df dr ss sc)) \<and> 0 < n)
          \<and> (\<exists>s n. season r = Some s
                \<and> (s, n) \<in> set (season_counts (filtered_df df dr ss sc)) \<and> 0 < n)
          \<and> (\<forall>s. status r = Some s \<longrightarrow>
                (\<exists>n. (s, n) \<in> set (status_counts (filtered_df df dr ss sc)) \<and> 0 < n)))"
proof -
  have a: "marker_for r = None" using assms by (rule marker_for_bad)
  then have b: "markers (xs @ r # ys) = markers xs @ markers ys"
    by (simp add: markers_append markers_skip)
  have c: "(\<exists>s n. police_station r = Some s
                \<and> (s, n) \<in> set (ps_counts (filtered_df df dr ss sc)) \<and> 0 < n)
          \<and> (\<exists>c n. crime_type r = Some c
                \<and> (c, n) \<in> set (crime_type_counts (filtered_df df dr ss sc)) \<and> 0 < n)
          \<and> (\<exists>s n. season r = Some s
                \<and> (s, n) \<in> set (season_counts (filtered_df df dr ss sc)) \<and> 0 < n)
          \<and> (\<forall>s. status r = Some s \<longrightarrow>
                (\<exists>n. (s, n) \<in> set (status_counts (filtered_df df dr ss sc)) \<and> 0 < n))"
    if m: "r \<in> set (filtered_df df dr ss sc)"
  proof -
    from filtered_has_categories [OF m] obtain s c
      where s: "police_station r = Some s" and c: "crime_type r = Some c" by blast
    from filtered_has_season [OF m] obtain se where se: "season r = Some se" by blast
    have 1: "\<exists>n. (s, n) \<in> set (ps_counts (filtered_df df dr ss sc)) \<and> 0 < n"
      unfolding ps_counts_def using m s by (rule counted_in)
    have 2: "\<exists>n. (c, n) \<in> set (crime_type_counts (filtered_df df dr ss sc)) \<and> 0 < n"
      unfolding crime_type_counts_def using m c by (rule counted_in)
    have 3: "\<exists>n. (se, n) \<in> set (season_counts (filtered_df df dr ss sc)) \<and> 0 < n"
      unfolding season_counts_def using m se by (rule counted_in)
    have 4: "\<exists>n. (st, n) \<in> set (status_counts (filtered_df df dr ss sc)) \<and> 0 < n"
      if "status r = Some st" for st
      unfolding status_counts_def using m that by (rule counted_in)
    from s c se 1 2 3 4 show ?thesis by blast
  qed
  from a b c show ?thesis by blast
qed

theorem bad_location_map_only_witness:
  "bad_location case_feb
   \<and> marker_for case_feb = None
   \<and> markers ([case_jan] @ case_feb # []) = markers [case_jan]
   \<and> case_feb \<in> set (filtered_df [case_jan, case_feb] (date_range ui_all)
        (selected_stations ui_all) (selected_crimes ui_all))
   \<and> (\<exists>n. (''Bodhghat'', n) \<in> set (ps_counts (filtered_df [case_jan, case_feb] (date_range ui_all)
        (selected_stations ui_all) (selected_crimes ui_all))) \<and> 0 < n)"
proof -
  have h: "bad_location case_feb" by (rule bad_location_examples)
  have m: "case_feb \<in> set (filtered_df [case_jan, case_feb] (date_range ui_all)
        (selected_stations ui_all) (selected_crimes ui_all))"
    unfolding filtered_feb by simp
  have p: "police_station case_feb = Some ''Bodhghat''" by (simp add: case_feb_def)
  have e: "markers [] = []" by (simp add: markers_def)
  from bad_location_map_only [OF h, of "[case_jan]" "[]" "[case_jan, case_feb]" "date_range ui_all"
      "selected_stations ui_all" "selected_crimes ui_all"] m p
  have "marker_for case_feb = None"
    and "markers ([case_jan] @ case_feb # []) = markers [case_jan] @ markers []"
    and "\<exists>n. (''Bodhghat'', n) \<in> set (ps_counts (filtered_df [case_jan, case_feb] (date_range ui_all)
        (selected_stations ui_all) (selected_crimes ui_all))) \<and> 0 < n"
    by auto
  with h m e show ?thesis by simp
qed

text \<open>
  The status count leaves out a row without \<^verbatim>\<open>status\<close>, whatever its \<^verbatim>\<open>location\<close>: the
  second example row has a malformed location, is in the filtered set, and is not in
  the status count.
\<close>

theorem bad_location_status_counterexample:
  "bad_location case_feb
   \<and> case_feb \<in> set (filtered_df [case_jan, case_feb] (date_range ui_all)
        (selected_stations ui_all) (selected_crimes ui_all))
   \<and> status case_feb = None
   \<and> status_counts (filtered_df [case_jan, case_feb] (date_range ui_all)
        (selected_stations ui_all) (selected_crimes ui_all)) = [(''Open'', 1)]"
  unfolding filtered_feb by (simp add: bad_location_examples counts_examples)

text \<open>
  C1. With a non-empty search text that holds no character special to regular
  expressions, the script shows a search result and nothing else. Among the rows that
  have a \<^verbatim>\<open>fir_number\<close>, the result holds exactly those whose \<^verbatim>\<open>fir_number\<close> contains the
  search text as a run of consecutive characters, letter case ignored, in the order
  of the data set. The date range and the station and crime-type selections have no
  effect on the result.
\<close>

theorem search_mode_literal:
  assumes "search_fir ui \<noteq> []" and "literal_pattern (search_fir ui)"
  shows "\<exists>res. app engine today df ui = Inr (SearchResult res)
           \<and> app engine today df (ui\<lparr>date_range := dr, selected_stations := ss, selected_crimes := sc\<rparr>)
               = Inr (SearchResult res)
           \<and> filter (\<lambda>r. fir_number r \<noteq> None) res
               = filter (\<lambda>r. case fir_number r of None \<Rightarrow> False
                              | Some f \<Rightarrow> \<exists>pre post. str_lower f = pre @ str_lower (search_fir ui) @ post) df"
proof -
  let ?res = "filter (\<lambda>r. is_substring (str_lower (search_fir ui)) (str_lower (astype_str (fir_number r)))) df"
  have a: "app engine today df ui = Inr (SearchResult ?res)"
    using assms by (simp add: app_def search_result_literal)
  have b: "app engine today df (ui\<lparr>date_range := dr, selected_stations := ss, selected_crimes := sc\<rparr>)
       = Inr (SearchResult ?res)"
    using assms by (simp add: app_def search_result_literal)
  from a b filter_filter_fir [of "str_lower (search_fir ui)" df] show ?thesis by blast
qed

theorem search_mode_literal_witness:
  "search_fir (ui_all\<lparr>search_fir := ''12/''\<rparr>) \<noteq> []
   \<and> literal_pattern (search_fir (ui_all\<lparr>search_fir := ''12/''\<rparr>))
   \<and> app no_regex 0 [case_jan, case_feb, case_undated] (ui_all\<lparr>search_fir := ''12/''\<rparr>)
       = Inr (SearchResult [case_jan])
   \<and> app no_regex 0 [case_jan, case_feb, case_undated]
        (ui_all\<lparr>search_fir := ''12/'', date_range := (0, 0), selected_stations := [], selected_crimes := []\<rparr>)
       = Inr (SearchResult [case_jan])"
proof -
  have h1: "search_fir (ui_all\<lparr>search_fir := ''12/''\<rparr>) \<noteq> []" by simp
  have h2: "literal_pattern (search_fir (ui_all\<lparr>search_fir := ''12/''\<rparr>))"
    by (simp add: search_examples)
  from search_mode_literal [where engine = no_regex and today = 0
      and df = "[case_jan, case_feb, case_undated]" and dr = "(0, 0)" and ss = "[]" and sc = "[]", OF h1 h2]
  obtain res where
    r1: "app no_regex 0 [case_jan, case_feb, case_undated] (ui_all\<lparr>search_fir := ''12/''\<rparr>)
          = Inr (SearchResult res)"
    and r2: "app no_regex 0 [case_jan, case_feb, case_undated]
        (ui_all\<lparr>search_fir := ''12/'', date_range := (0, 0), selected_stations := [], selected_crimes := []\<rparr>)
          = Inr (SearchResult res)"
    by blast
  from r1 have "res = [case_jan]" by (simp add: search_examples)
  with r1 r2 h1 h2 show ?thesis by blast
qed

text \<open>
  A row without \<^verbatim>\<open>fir_number\<close> is searched as the text \<^verbatim>\<open>nan\<close>: the search text \<^verbatim>\<open>nan\<close>
  finds the second example row, which has no \<^verbatim>\<open>fir_number\<close>. And the search text is
  a regular expression: a single dot finds both example rows, though the
  \<^verbatim>\<open>fir_number\<close> of the first holds no dot.
\<close>

theorem search_null_fir_counterexample:
  "fir_number case_feb = None
   \<and> app no_regex 0 [case_jan, case_feb] (ui_all\<lparr>search_fir := ''nan''\<rparr>)
       = Inr (SearchResult [case_feb])
   \<and> fir_number case_jan = Some ''12/2024''
   \<and> \<not> is_substring (str_lower ''.'') (str_lower ''12/2024'')
   \<and> app no_regex 0 [case_jan, case_feb] (ui_all\<lparr>search_fir := ''.''\<rparr>)
       = Inr (SearchResult [case_jan, case_feb])"
  by (simp only: search_examples simp_thms)

text \<open>
  C4. After the chargesheet button (and with no search text), when the due date and
  the days left of every dated row fit the 64-bit count of nanoseconds, the script
  shows exactly the rows whose \<^verbatim>\<open>chargesheet_filed\<close> is not \<^verbatim>\<open>yes\<close> in any letter case and
  whose days left are between 0 and 10, both included; the due date is
  \<^verbatim>\<open>date_reported\<close> plus 60 days and the days left are the whole days from the reference
  time to the due date. Otherwise the run stops with \<^verbatim>\<open>OverflowError\<close>. A row
  reported on 2024-01-01 is due on 2024-03-01, and on 2024-02-25 it has 5 days left.
\<close>

theorem due_soon_mode:
  assumes "search_fir ui = []" and "show_due ui"
  shows "((\<forall>r \<in> set df. due_fits today r) \<longrightarrow>
            app engine today df ui =
              Inr (DueSoon (filter (\<lambda>r. \<not> flag_is_yes (chargesheet_filed r)
                     \<and> (case date_reported r of
                           None \<Rightarrow> False
                         | Some t \<Rightarrow> 0 \<le> (t + 60 * ns_per_day - today) div ns_per_day
                                     \<and> (t + 60 * ns_per_day - today) div ns_per_day \<le> 10)) df)))
       \<and> (\<not> (\<forall>r \<in> set df. due_fits today r) \<longrightarrow> app engine today df ui = Inl OverflowError)
       \<and> (date_reported r = Some (timestamp 2024 1 1) \<longrightarrow>
            cs_due r = Inr (Some (timestamp 2024 3 1))
            \<and> days_left (timestamp 2024 2 25) r = Inr (Some 5))"
proof -
  have a: "app engine today df ui = (case due_soon_df today df of Inl e \<Rightarrow> Inl e | Inr res \<Rightarrow> Inr (DueSoon res))"
    using assms by (simp add: app_def)
  show ?thesis
    unfolding a using cs_due_example [of r]
    by (auto simp: due_soon_df_fits due_soon_df_overflow)
qed

theorem due_soon_mode_witness:
  "app no_regex (timestamp 2024 2 25) [case_jan, case_filed, case_feb, case_undated]
       (ui_all\<lparr>show_due := True\<rparr>) = Inr (DueSoon [case_jan])
   \<and> chargesheet_filed case_filed = Some ''YES''
   \<and> days_left (timestamp 2024 2 25) case_filed = Inr (Some 5)
   \<and> cs_due case_jan = Inr (Some (timestamp 2024 3 1))
   \<and> days_left (timestamp 2024 2 25) case_jan = Inr (Some 5)"
proof -
  have h1: "search_fir (ui_all\<lparr>show_due := True\<rparr>) = []" by (simp add: ui_all_fields)
  have h2: "show_due (ui_all\<lparr>show_due := True\<rparr>)" by simp
  have h3: "date_reported case_jan = Some (timestamp 2024 1 1)" by (simp add: case_jan_def)
  note w = due_soon_mode [where engine = no_regex and today = "timestamp 2024 2 25"
      and df = "[case_jan, case_filed, case_feb, case_undated]" and r = case_jan, OF h1 h2]
  from w due_examples(10)
  have "app no_regex (timestamp 2024 2 25) [case_jan, case_filed, case_feb, case_undated]
       (ui_all\<lparr>show_due := True\<rparr>) = Inr (DueSoon [case_jan])"
    unfolding due_filter_example by blast
  moreover from w h3 have "cs_due case_jan = Inr (Some (timestamp 2024 3 1))
       \<and> days_left (timestamp 2024 2 25) case_jan = Inr (Some 5)" by blast
  ultimately show ?thesis using due_examples(6,7) by blast
qed

text \<open>
  A row dated 1700-01-01 is a timestamp the column can hold, but its due date lies
  more than 292 years before the reference time: the run stops, and the first example
  row, not filed and with 5 days left, is not shown.
\<close>

theorem due_soon_overflow_counterexample:
  "valid_ts (timestamp 1700 1 1)
   \<and> date_reported case_old = Some (timestamp 1700 1 1)
   \<and> chargesheet_filed case_jan = Some ''No''
   \<and> days_left (timestamp 2024 2 25) case_jan = Inr (Some 5)
   \<and> app no_regex (timestamp 2024 2 25) [case_jan, case_old] (ui_all\<lparr>show_due := True\<rparr>)
       = Inl OverflowError"
  by (simp only: due_examples simp_thms)

text \<open>
  C5. After the unarrested button (with no search text and the chargesheet button not
  pressed), when the time since the report of every dated row fits the 64-bit count
  of nanoseconds, the script shows exactly the rows whose \<^verbatim>\<open>accused_arrested\<close> is not
  \<^verbatim>\<open>yes\<close> in any letter case and for which the whole days from \<^verbatim>\<open>date_reported\<close> to the
  reference time exceed 45. Otherwise the run stops with \<^verbatim>\<open>OverflowError\<close>. A row
  without \<^verbatim>\<open>date_reported\<close> is never shown and never the cause of an error: the run
  ends as it does on the data set without that row.
\<close>

theorem unarrested_mode:
  assumes "search_fir ui = []" and "\<not> show_due ui" and "show_unarrested ui"
  shows "((\<forall>r \<in> set df. unarrested_fits today r) \<longrightarrow>
            app engine today df ui =
              Inr (Unarrested (filter (\<lambda>r. \<not> flag_is_yes (accused_arrested r)
                     \<and> (case date_reported r of
                           None \<Rightarrow> False
                         | Some t \<Rightarrow> 45 < (today - t) div ns_per_day)) df)))
       \<and> (\<not> (\<forall>r \<in> set df. unarrested_fits today r) \<longrightarrow> app engine today df ui = Inl OverflowError)
       \<and> (date_reported r = None \<longrightarrow>
            unarrested_fits today r
            \<and> app engine today (xs @ r # ys) ui = app engine today (xs @ ys) ui)"
proof -
  have a: "app engine today d ui =
      (case unarrested_df today d of Inl e \<Rightarrow> Inl e | Inr res \<Rightarrow> Inr (Unarrested res))" for d
    using assms by (simp add: app_def)
  have b: "unarrested_fits today r" if "date_reported r = None"
    using that by (simp add: unarrested_fits_def)
  show ?thesis
    unfolding a using b by (auto simp: unarrested_df_fits unarrested_df_overflow unarrested_df_skip)
qed

theorem unarrested_mode_witness:
  "app no_regex (timestamp 2024 2 25) [case_jan, case_undated, case_feb]
       (ui_all\<lparr>show_unarrested := True\<rparr>) = Inr (Unarrested [case_feb])
   \<and> accused_arrested case_jan = Some ''Yes''
   \<and> (timestamp 2024 2 25 - timestamp 2024 1 1) div ns_per_day = 55
   \<and> date_reported case_undated = None
   \<and> app no_regex (timestamp 2024 2 25) ([case_jan] @ case_undated # [case_feb])
       (ui_all\<lparr>show_unarrested := True\<rparr>)
      = app no_regex (timestamp 2024 2 25) ([case_jan] @ [case_feb]) (ui_all\<lparr>show_unarrested := True\<rparr>)"
proof -
  have h1: "search_fir (ui_all\<lparr>show_unarrested := True\<rparr>) = []" by (simp add: ui_all_fields)
  have h2: "\<not> show_due (ui_all\<lparr>show_unarrested := True\<rparr>)" by (simp add: ui_all_fields)
  have h3: "show_unarrested (ui_all\<lparr>show_unarrested := True\<rparr>)" by simp
  note w = unarrested_mode [where engine = no_regex and today = "timestamp 2024 2 25"
      and df = "[case_jan, case_undated, case_feb]" and r = case_undated
      and xs = "[case_jan]" and ys = "[case_feb]", OF h1 h2 h3]
  from w unarrested_examples(1)
  have "app no_regex (timestamp 2024 2 25) [case_jan, case_undated, case_feb]
       (ui_all\<lparr>show_unarrested := True\<rparr>) = Inr (Unarrested [case_feb])"
    unfolding unarrested_examples(2) by blast
  moreover from w unarrested_examples(10)
  have "app no_regex (timestamp 2024 2 25) ([case_jan] @ case_undated # [case_feb])
       (ui_all\<lparr>show_unarrested := True\<rparr>)
      = app no_regex (timestamp 2024 2 25) ([case_jan] @ [case_feb]) (ui_all\<lparr>show_unarrested := True\<rparr>)"
    by blast
  ultimately show ?thesis using unarrested_examples(8,9,10) by blast
qed

text \<open>
  With a row dated 1700-01-01 in the data set the run stops, and the second example
  row, not arrested and reported 376 days before the reference time, is not shown.
\<close>

theorem unarrested_overflow_counterexample:
  "valid_ts (timestamp 1700 1 1)
   \<and> date_reported case_old = Some (timestamp 1700 1 1)
   \<and> accused_arrested case_feb = None
   \<and> date_reported case_feb = Some (timestamp 2023 2 14)
   \<and> (timestamp 2024 2 25 - timestamp 2023 2 14) div ns_per_day = 376
   \<and> app no_regex (timestamp 2024 2 25) [case_feb, case_old] (ui_all\<lparr>show_unarrested := True\<rparr>)
       = Inl OverflowError"
  by (simp only: due_examples unarrested_examples simp_thms)

text \<open>
  C2. When every date difference of the record set fits the 64-bit count of
  nanoseconds, each of the two mean lags shown on the dashboard (FIR to arrest, arrest
  to chargesheet) is the sum of the lag values that are defined divided by the number
  of defined values; rows whose lag is undefined add nothing to the sum and nothing
  to the count. Otherwise the computation of the lag column stops with
  \<^verbatim>\<open>OverflowError\<close>. For the lags 5, undefined, 15 the mean is 10.
\<close>

theorem mean_excludes_undefined:
  "((\<forall>r \<in> set fdf. lag_fits (arrest_date r) (date_reported r)) \<longrightarrow>
      avg_fir_arrest fdf =
        Inr (mean_of (List.map_filter (\<lambda>r. lag_days (arrest_date r) (date_reported r)) fdf)))
   \<and> (\<not> (\<forall>r \<in> set fdf. lag_fits (arrest_date r) (date_reported r)) \<longrightarrow>
      avg_fir_arrest fdf = Inl OverflowError)
   \<and> ((\<forall>r \<in> set fdf. lag_fits (chargesheet_date r) (arrest_date r)) \<longrightarrow>
      avg_arrest_cs fdf =
        Inr (mean_of (List.map_filter (\<lambda>r. lag_days (chargesheet_date r) (arrest_date r)) fdf)))
   \<and> (\<not> (\<forall>r \<in> set fdf. lag_fits (chargesheet_date r) (arrest_date r)) \<longrightarrow>
      avg_arrest_cs fdf = Inl OverflowError)
   \<and> (vals \<noteq> [] \<longrightarrow> mean_of vals = Some (of_int (sum_list vals) / of_nat (length vals)))
   \<and> mean_of [] = None
   \<and> series_mean [Some 5, None, Some 15] = Some 10"
proof -
  have "series_mean [Some 5, None, Some 15] = Some 10"
    by (simp add: series_mean_def)
  then show ?thesis
    using avg_fir_arrest_fits [of fdf] avg_fir_arrest_overflow [of fdf]
      avg_arrest_cs_fits [of fdf] avg_arrest_cs_overflow [of fdf]
    by (simp add: mean_of_def)
qed

theorem mean_excludes_undefined_witness:
  "column fir_to_arrest [case_jan, case_feb, case_charged] = Inr [Some 9, None, Some 3]
   \<and> avg_fir_arrest [case_jan, case_feb, case_charged] = Inr (Some 6)
   \<and> column arrest_to_chargesheet [case_jan, case_feb, case_charged] = Inr [None, None, Some 52]
   \<and> avg_arrest_cs [case_jan, case_feb, case_charged] = Inr (Some 52)"
proof -
  note w = mean_excludes_undefined [of "[case_jan, case_feb, case_charged]" "[9, 3]"]
  from w lag_examples(1)
  have "avg_fir_arrest [case_jan, case_feb, case_charged] = Inr (mean_of [9, 3])"
    unfolding lag_examples(3) by blast
  moreover from w lag_examples(2)
  have "avg_arrest_cs [case_jan, case_feb, case_charged] = Inr (mean_of [52])"
    unfolding lag_examples(4) by blast
  ultimately show ?thesis using lag_examples(5,6) by (simp only: lag_examples(7,8) simp_thms)
qed

text \<open>
  A row reported on 1700-01-01 and arrested on 2024-01-10 holds two timestamps the
  columns can hold, more than 292 years apart: with it in the filtered set, beside a
  row with a lag of 9 days and a row with an undefined lag, no mean is computed.
\<close>

theorem mean_overflow_counterexample:
  "valid_ts (timestamp 1700 1 1)
   \<and> date_reported case_old = Some (timestamp 1700 1 1)
   \<and> valid_ts (timestamp 2024 1 10)
   \<and> arrest_date case_old = Some (timestamp 2024 1 10)
   \<and> fir_to_arrest case_jan = Inr (Some 9)
   \<and> fir_to_arrest case_feb = Inr None
   \<and> filtered_df [case_jan, case_feb, case_old] (- 98615, 20088)
        (selected_stations ui_all) (selected_crimes ui_all) = [case_jan, case_feb, case_old]
   \<and> avg_fir_arrest [case_jan, case_feb, case_old] = Inl OverflowError
   \<and> app no_regex (timestamp 2024 2 25) [case_jan, case_feb, case_old]
        (ui_all\<lparr>date_range := (- 98615, 20088)\<rparr>) = Inl OverflowError"
  by (simp only: due_examples lag_overflow_examples simp_thms)

text \<open>
  C6. A row without \<^verbatim>\<open>date_reported\<close> is never in the result of the standard filter,
  whatever the date range: the filter treats the data set as if the row were not
  there, while the row still counts as one row of the unfiltered data set. A row with
  \<^verbatim>\<open>date_reported\<close> passes the date test exactly when its timestamp lies between 00:00
  of the start date and 00:00 of the end date, both instants included: a row reported
  at exactly 00:00 of the start date or of the end date matches, and a row reported
  later on the end date does not.
\<close>

theorem date_range_filter:
  "(date_reported r = None \<longrightarrow>
      r \<notin> set (filtered_df df dr ss sc)
      \<and> filtered_df (xs @ r # ys) dr ss sc = filtered_df xs dr ss sc @ filtered_df ys dr ss sc
      \<and> length (xs @ r # ys) = length xs + 1 + length ys)
   \<and> (date_reported r = Some t \<longrightarrow>
        (r \<in> set (filtered_df df dr ss sc) \<longleftrightarrow>
           r \<in> set df \<and> to_datetime (fst dr) \<le> t \<and> t \<le> to_datetime (snd dr)
           \<and> isin (police_station r) ss \<and> isin (crime_type r) sc))
   \<and> ((date_reported r = Some (to_datetime (fst dr)) \<or> date_reported r = Some (to_datetime (snd dr)))
        \<and> fst dr \<le> snd dr \<and> r \<in> set df
        \<and> isin (police_station r) ss \<and> isin (crime_type r) sc
      \<longrightarrow> r \<in> set (filtered_df df dr ss sc))
   \<and> (date_reported r = Some (to_datetime (snd dr) + k) \<and> 0 < k
      \<longrightarrow> r \<notin> set (filtered_df df dr ss sc))"
proof -
  have a: "r \<notin> set (filtered_df df dr ss sc)" if "date_reported r = None"
    using that by (simp add: filtered_df_member na_ge_def)
  have b: "filtered_df (xs @ r # ys) dr ss sc = filtered_df xs dr ss sc @ filtered_df ys dr ss sc"
    if "date_reported r = None"
    using that by (simp add: filtered_df_def na_ge_def)
  have c: "r \<in> set (filtered_df df dr ss sc)"
    if "date_reported r = Some (to_datetime (fst dr)) \<or> date_reported r = Some (to_datetime (snd dr))"
      and "fst dr \<le> snd dr" and "r \<in> set df"
      and "isin (police_station r) ss" and "isin (crime_type r) sc"
    using that to_datetime_mono [of "fst dr" "snd dr"]
    by (auto simp: filtered_df_member na_ge_def na_le_def)
  have d: "r \<in> set (filtered_df df dr ss sc) \<longleftrightarrow>
           r \<in> set df \<and> to_datetime (fst dr) \<le> t \<and> t \<le> to_datetime (snd dr)
           \<and> isin (police_station r) ss \<and> isin (crime_type r) sc"
    if "date_reported r = Some t"
    using that by (auto simp: filtered_df_member na_ge_def na_le_def)
  have e: "r \<notin> set (filtered_df df dr ss sc)"
    if "date_reported r = Some (to_datetime (snd dr) + k)" "0 < k"
    using that by (rule after_end_bound)
  from a b c d e show ?thesis by auto
qed

theorem date_range_filter_witness:
  "case_undated \<notin> set (filtered_df [case_jan, case_undated, case_feb] (date_range ui_all)
        (selected_stations ui_all) (selected_crimes ui_all))
   \<and> filtered_df ([case_jan] @ case_undated # [case_feb]) (date_range ui_all)
        (selected_stations ui_all) (selected_crimes ui_all) = [case_jan, case_feb]
   \<and> length ([case_jan] @ case_undated # [case_feb]) = 3
   \<and> case_new_year \<in> set (filtered_df [case_jan, case_new_year] (date_range ui_all)
        (selected_stations ui_all) (selected_crimes ui_all))"
proof -
  have f1: "filtered_df [case_jan] (date_range ui_all) (selected_stations ui_all) (selected_crimes ui_all) = [case_jan]"
    by (simp add: filtered_df_def ui_all_range case_jan_def
      ts_jan01 na_ge_def na_le_def isin_def to_datetime_def ns_per_day_def ui_all_fields)
  have f2: "filtered_df [case_feb] (date_range ui_all) (selected_stations ui_all) (selected_crimes ui_all) = [case_feb]"
    by (simp add: filtered_df_def ui_all_range case_feb_def
      ts_feb14 na_ge_def na_le_def isin_def to_datetime_def ns_per_day_def ui_all_fields)
  have h1: "date_reported case_undated = None" by (simp add: case_undated_def)
  have h2: "(date_reported case_new_year = Some (to_datetime (fst (date_range ui_all)))
      \<or> date_reported case_new_year = Some (to_datetime (snd (date_range ui_all))))
     \<and> fst (date_range ui_all) \<le> snd (date_range ui_all)
     \<and> case_new_year \<in> set [case_jan, case_new_year]
     \<and> isin (police_station case_new_year) (selected_stations ui_all)
     \<and> isin (crime_type case_new_year) (selected_crimes ui_all)"
    by (simp add: case_new_year_def case_undated_def ui_all_range ui_all_fields isin_def)
  have w1: "case_undated \<notin> set (filtered_df [case_jan, case_undated, case_feb] (date_range ui_all)
        (selected_stations ui_all) (selected_crimes ui_all))
      \<and> filtered_df ([case_jan] @ case_undated # [case_feb]) (date_range ui_all)
        (selected_stations ui_all) (selected_crimes ui_all) = [case_jan] @ [case_feb]
      \<and> length ([case_jan] @ case_undated # [case_feb]) = length [case_jan] + 1 + length [case_feb]"
    using date_range_filter [of case_undated "[case_jan, case_undated, case_feb]" "date_range ui_all"
        "selected_stations ui_all" "selected_crimes ui_all" "[case_jan]" "[case_feb]"] h1
    unfolding f1 f2 by blast
  have w2: "case_new_year \<in> set (filtered_df [case_jan, case_new_year] (date_range ui_all)
        (selected_stations ui_all) (selected_crimes ui_all))"
    using date_range_filter [of case_new_year "[case_jan, case_new_year]" "date_range ui_all"
        "selected_stations ui_all" "selected_crimes ui_all"] h2 by blast
  from w1 have a1: "case_undated \<notin> set (filtered_df [case_jan, case_undated, case_feb] (date_range ui_all)
        (selected_stations ui_all) (selected_crimes ui_all))" by blast
  from w1 have "filtered_df ([case_jan] @ case_undated # [case_feb]) (date_range ui_all)
        (selected_stations ui_all) (selected_crimes ui_all) = [case_jan] @ [case_feb]" by blast
  then have a2: "filtered_df ([case_jan] @ case_undated # [case_feb]) (date_range ui_all)
        (selected_stations ui_all) (selected_crimes ui_all) = [case_jan, case_feb]" by simp
  have a3: "length ([case_jan] @ case_undated # [case_feb]) = 3" by simp
  from a1 a2 a3 w2 show ?thesis by blast
qed

text \<open>
  A row reported at noon of the end date, 2024-12-31, with its station and crime type
  selected, is not in the filtered result.
\<close>

theorem end_date_noon_counterexample:
  "date_reported case_noon_end = Some (to_datetime 20088 + 43200000000000)
   \<and> (to_datetime 20088 + 43200000000000) div ns_per_day = 20088
   \<and> snd (date_range ui_all) = 20088
   \<and> isin (police_station case_noon_end) (selected_stations ui_all)
   \<and> isin (crime_type case_noon_end) (selected_crimes ui_all)
   \<and> filtered_df [case_jan, case_noon_end] (date_range ui_all)
        (selected_stations ui_all) (selected_crimes ui_all) = [case_jan]"
  by (simp only: noon_examples simp_thms)

text \<open>
  C10. A row whose \<^verbatim>\<open>police_station\<close> or \<^verbatim>\<open>crime_type\<close> is missing is in no result of
  the standard filter, for any date range and any selections, the default selection
  of all stations and crime types of the data set included. The filtered rows, and
  with them every metric, chart and marker of the dashboard, are the same as for the
  data set without that row: the standard run ends exactly as it does without it.
\<close>

theorem null_category_excluded:
  assumes "police_station r = None \<or> crime_type r = None"
  shows "r \<notin> set (filtered_df df dr ss sc)
       \<and> r \<notin> set (filtered_df df dr (stations df) (crime_types df))
       \<and> filtered_df (xs @ r # ys) dr ss sc = filtered_df (xs @ ys) dr ss sc
       \<and> render (filtered_df (xs @ r # ys) dr ss sc) = render (filtered_df (xs @ ys) dr ss sc)
       \<and> (search_fir ui = [] \<and> \<not> show_due ui \<and> \<not> show_unarrested ui \<longrightarrow>
            app engine today (xs @ r # ys) ui = app engine today (xs @ ys) ui)"
proof -
  have a: "r \<notin> set (filtered_df df dr' ss' sc')" for dr' ss' sc'
    using assms by (auto simp: filtered_df_member isin_def)
  have b: "filtered_df (xs @ r # ys) dr' ss' sc' = filtered_df (xs @ ys) dr' ss' sc'" for dr' ss' sc'
    using assms by (rule filtered_df_skip)
  have c: "app engine today (xs @ r # ys) ui = app engine today (xs @ ys) ui"
    if "search_fir ui = []" "\<not> show_due ui" "\<not> show_unarrested ui"
    using that by (simp add: app_def b)
  from a b c show ?thesis by simp
qed

theorem null_category_excluded_witness:
  "police_station case_undated = None
   \<and> case_undated \<notin> set (filtered_df [case_jan, case_undated] (19358, 20088)
        (stations [case_jan, case_undated]) (crime_types [case_jan, case_undated]))
   \<and> stations [case_jan, case_undated] = [''Kotwali'']
   \<and> crime_types [case_jan, case_undated] = [''Theft'']
   \<and> app no_regex (timestamp 2024 2 25) ([case_jan] @ case_undated # [case_feb]) ui_all
      = app no_regex (timestamp 2024 2 25) ([case_jan] @ [case_feb]) ui_all
   \<and> (\<exists>d. app no_regex (timestamp 2024 2 25) ([case_jan] @ [case_feb]) ui_all = Inr (Dashboard d)
       \<and> total_cases d = 2 \<and> mean_fir_arrest d = Some 9
       \<and> by_station d = [(''Kotwali'', 1), (''Bodhghat'', 1)])"
proof -
  have h: "police_station case_undated = None \<or> crime_type case_undated = None"
    using dashboard_examples(1) by blast
  note w = null_category_excluded [OF h, where df = "[case_jan, case_undated]" and dr = "(19358, 20088)"
      and xs = "[case_jan]" and ys = "[case_feb]" and ui = ui_all and engine = no_regex
      and today = "timestamp 2024 2 25"]
  note a = w [THEN conjunct2, THEN conjunct1]
  note b = w [THEN conjunct2, THEN conjunct2, THEN conjunct2, THEN conjunct2, THEN mp,
      OF dashboard_examples(4)]
  show ?thesis
    by (intro conjI a b dashboard_examples(1,2,3) dashboard_example_run)
qed

end
